theory Spec2Isabelle
  imports Main "HOL-Library.Word"
begin

section \<open>Data model (parabox/types.ts)\<close>

text \<open>
  A string of the runtime is a list of 16-bit code units. \<open>str\<close> gives the string of a
  literal of the source, \<open>chr\<close> the code unit of one of its characters.
\<close>

type_synonym unit16 = "16 word"

type_synonym jstring = "unit16 list"

definition chr :: "char \<Rightarrow> unit16" where
  "chr c = of_char c"

definition str :: "string \<Rightarrow> jstring" where
  "str s = map chr s"

text \<open>
  A number of the runtime is a double. A finite one is \<open>Finite m e\<close>, standing for
  \<open>m * 2 ^ e\<close> with \<open>m\<close> odd (and zero is \<open>Finite 0 0\<close>), so that equal numbers are equal
  values; the other three values are \<open>NaN\<close> and the two infinities. The values that
  occur are made by \<open>decimal\<close> below, which rounds to the nearest double, and by integer
  arithmetic of the editor. The sign of zero is not part of this model.

  Fields that the format reads with \<open>toInt\<close> (coordinates, ids, sizes, orders) are
  \<open>int\<close>; fields of type \<open>0 | 1\<close> are \<open>bool\<close> (\<open>True\<close> is 1); fields read with
  \<open>toFloat\<close> are \<open>number\<close>.
\<close>

datatype number = NaN | PosInfinity | NegInfinity | Finite int int

datatype DrawStyle = tui | grid | oldstyle

record LevelHeader =
  version :: int
  attempt_order :: "jstring option"
  shed :: "bool option"
  inner_push :: "bool option"
  draw_style :: "DrawStyle option"
  custom_level_music :: "int option"
  custom_level_palette :: "int option"
  unknown :: "jstring list"

record BlockFields =
  b_x :: int
  b_y :: int
  b_id :: int
  b_width :: int
  b_height :: int
  b_hue :: number
  b_sat :: number
  b_val :: number
  b_zoomfactor :: number
  b_fillwithwalls :: bool
  b_player :: bool
  b_possessable :: bool
  b_playerorder :: int
  b_fliph :: bool
  b_floatinspace :: bool
  b_specialeffect :: int

record Ref =
  r_x :: int
  r_y :: int
  r_id :: int
  r_exitblock :: bool
  r_infexit :: bool
  r_infexitnum :: int
  r_infenter :: bool
  r_infenternum :: int
  r_infenterid :: int
  r_player :: bool
  r_possessable :: bool
  r_playerorder :: int
  r_fliph :: bool
  r_floatinspace :: bool
  r_specialeffect :: int

record Wall =
  w_x :: int
  w_y :: int
  w_player :: bool
  w_possessable :: bool
  w_playerorder :: int

datatype FloorType =
  Button | PlayerButton | Portal jstring | Info jstring | Break | FastTravel | Gallery
  | DemoEnd | Unknown jstring

record Floor =
  f_x :: int
  f_y :: int
  f_type :: FloorType

text \<open>
  \<open>Obj = Block | Ref | Wall | Floor\<close>, told apart by the \<open>kind\<close> tag. A Block is its
  scalar fields and its \<open>children\<close> array.
\<close>

datatype Block = Block (attrs: BlockFields) (children: "Obj list")
  and Obj = BlockObj Block | RefObj Ref | WallObj Wall | FloorObj Floor

record Level =
  header :: LevelHeader
  roots :: "Block list"

text \<open>
  Reading a JavaScript array at an index outside it gives \<open>undefined\<close>. Indices are \<open>nat\<close>: the
  non-negative integers that the format and the editor build.
\<close>

definition at_index :: "'a list \<Rightarrow> nat \<Rightarrow> 'a option" where
  "at_index xs i = (if i < length xs then Some (xs ! i) else None)"

section \<open>Strings and numbers of the runtime\<close>

text \<open>
  The white space of \<open>trim\<close> and of the pattern \<open>\s\<close>: the code units of \<open>WhiteSpace\<close>
  (tab, vertical tab, form feed, space, no-break space, the byte order mark and the
  space separators of Unicode) and of \<open>LineTerminator\<close> (line feed, carriage return,
  line separator, paragraph separator).
\<close>

definition isLineTerminator :: "unit16 \<Rightarrow> bool" where
  "isLineTerminator c = (c = 0x0A \<or> c = 0x0D \<or> c = 0x2028 \<or> c = 0x2029)"

definition isSpace :: "unit16 \<Rightarrow> bool" where
  "isSpace c =
     (isLineTerminator c \<or> c = 0x09 \<or> c = 0x0B \<or> c = 0x0C \<or> c = 0x20 \<or> c = 0xA0
      \<or> c = 0x1680 \<or> (0x2000 \<le> c \<and> c \<le> 0x200A) \<or> c = 0x202F \<or> c = 0x205F
      \<or> c = 0x3000 \<or> c = 0xFEFF)"

definition trimStart :: "jstring \<Rightarrow> jstring" where
  "trimStart s = dropWhile isSpace s"

definition trimEnd :: "jstring \<Rightarrow> jstring" where
  "trimEnd s = rev (dropWhile isSpace (rev s))"

definition trim :: "jstring \<Rightarrow> jstring" where
  "trim s = trimEnd (trimStart s)"

text \<open>\<open>s.split(/\s+/g)\<close>: a separator at either end leaves an empty string there.\<close>

fun splitWs :: "jstring \<Rightarrow> jstring list" where
  "splitWs [] = [[]]"
| "splitWs (c # cs) =
     (if isSpace c then (if cs \<noteq> [] \<and> isSpace (hd cs) then splitWs cs else [] # splitWs cs)
      else (case splitWs cs of [] \<Rightarrow> [[c]] | t # ts \<Rightarrow> (c # t) # ts))"

text \<open>\<open>parts.join(' ')\<close>.\<close>

fun joinSp :: "jstring list \<Rightarrow> jstring" where
  "joinSp [] = []"
| "joinSp [t] = t"
| "joinSp (t # u # ts) = t @ 0x20 # joinSp (u # ts)"

text \<open>\<open>text.split('\n')\<close>.\<close>

fun splitNL :: "jstring \<Rightarrow> jstring list" where
  "splitNL [] = [[]]"
| "splitNL (c # cs) =
     (if c = 0x0A then [] # splitNL cs
      else (case splitNL cs of [] \<Rightarrow> [[c]] | l # ls \<Rightarrow> (c # l) # ls))"

subsection \<open>Doubles\<close>

text \<open>The number of binary digits of a positive integer.\<close>

function bitLength :: "int \<Rightarrow> int" where
  "bitLength n = (if n \<le> 0 then 0 else bitLength (n div 2) + 1)"
  by pat_completeness auto
termination
  by (relation "measure nat") auto

declare bitLength.simps [simp del]

text \<open>
  The fraction \<open>n / d\<close> divided by \<open>2 ^ k\<close>, as a numerator and a denominator; \<open>k\<close> may be
  negative.
\<close>

definition scaled :: "int \<Rightarrow> int \<Rightarrow> int \<Rightarrow> int \<times> int" where
  "scaled n d k = (if 0 \<le> k then (n, d * 2 ^ nat k) else (n * 2 ^ nat (- k), d))"

text \<open>
  For positive \<open>n\<close> and \<open>d\<close>, the greatest \<open>k\<close> with \<open>2 ^ k \<le> n / d\<close>: it is the
  difference of the bit lengths, or one below.
\<close>

definition floorLog2 :: "int \<Rightarrow> int \<Rightarrow> int" where
  "floorLog2 n d =
     (let k = bitLength n - bitLength d;
          (a, b) = scaled n d k in
      if b \<le> a then k else k - 1)"

text \<open>The integer nearest to \<open>n / d\<close> for positive \<open>d\<close>, the even one of two.\<close>

definition roundHalfEven :: "int \<Rightarrow> int \<Rightarrow> int" where
  "roundHalfEven n d =
     (let q = n div d;
          r = n mod d in
      if 2 * r < d then q
      else if d < 2 * r then q + 1
      else if even q then q else q + 1)"

text \<open>The value \<open>m * 2 ^ e\<close> with its mantissa made odd.\<close>

function normalizeBin :: "int \<Rightarrow> int \<Rightarrow> number" where
  "normalizeBin m e =
     (if m = 0 then Finite 0 0
      else if even m then normalizeBin (m div 2) (e + 1)
      else Finite m e)"
  by pat_completeness auto
termination
  by (relation "measure (\<lambda>(m, e). nat \<bar>m\<bar>)") auto

declare normalizeBin.simps [simp del]

text \<open>
  The double nearest to the positive fraction \<open>n / d\<close>, ties to the even mantissa. A
  double has 53 binary digits and its last digit weighs \<open>2 ^ e\<close> with
  \<open>-1074 \<le> e \<le> 971\<close>; a value that rounds to \<open>2 ^ 1024\<close> or more is infinite.
\<close>

definition nearestDouble :: "int \<Rightarrow> int \<Rightarrow> number" where
  "nearestDouble n d =
     (let e = max (floorLog2 n d - 52) (- 1074);
          (a, b) = scaled n d e;
          q = roundHalfEven a b in
      if 971 < e \<or> (e = 971 \<and> 2 ^ 53 \<le> q) then PosInfinity else normalizeBin q e)"

definition negate :: "number \<Rightarrow> number" where
  "negate x =
     (case x of
        NaN \<Rightarrow> NaN
      | PosInfinity \<Rightarrow> NegInfinity
      | NegInfinity \<Rightarrow> PosInfinity
      | Finite m e \<Rightarrow> Finite (- m) e)"

text \<open>
  The number value of the decimal \<open>m * 10 ^ e\<close>: a numeric literal of the source, and
  the mathematical value of a numeric string, become a number this way.
\<close>

definition decimal :: "int \<Rightarrow> int \<Rightarrow> number" where
  "decimal m e =
     (if m = 0 then Finite 0 0
      else
        let x = (if 0 \<le> e then nearestDouble (\<bar>m\<bar> * 10 ^ nat e) 1
                 else nearestDouble \<bar>m\<bar> (10 ^ nat (- e))) in
        if m < 0 then negate x else x)"

definition isFinite :: "number \<Rightarrow> bool" where
  "isFinite n = (case n of Finite m e \<Rightarrow> True | _ \<Rightarrow> False)"

text \<open>\<open>Math.trunc\<close> of a finite value, as an integer: the fraction is cut off towards zero.\<close>

definition truncInt :: "int \<Rightarrow> int \<Rightarrow> int" where
  "truncInt m e =
     (if 0 \<le> e then m * 2 ^ nat e
      else if 0 \<le> m then m div 2 ^ nat (- e)
      else - ((- m) div 2 ^ nat (- e)))"

subsection \<open>Reading a number: \<open>Number(token)\<close>\<close>

text \<open>
  The value of a digit is its place in the digit alphabet; the letters of a hexadecimal
  digit count in either case.
\<close>

primrec placeIn :: "unit16 \<Rightarrow> jstring \<Rightarrow> nat option" where
  "placeIn c [] = None"
| "placeIn c (d # ds) = (if c = d then Some 0 else map_option Suc (placeIn c ds))"

definition digitOf :: "unit16 \<Rightarrow> nat option" where
  "digitOf c = placeIn c (str ''0123456789'')"

definition hexDigitOf :: "unit16 \<Rightarrow> nat option" where
  "hexDigitOf c =
     (case placeIn c (str ''0123456789abcdef'') of
        Some d \<Rightarrow> Some d
      | None \<Rightarrow> map_option (\<lambda>d. d + 10) (placeIn c (str ''ABCDEF'')))"

definition isDigit :: "unit16 \<Rightarrow> bool" where
  "isDigit c = (digitOf c \<noteq> None)"

text \<open>The value of a digit string in a radix; every character is a digit below the radix.\<close>

definition radixVal :: "int \<Rightarrow> jstring \<Rightarrow> int" where
  "radixVal r ds =
     foldl (\<lambda>a c. r * a + (case hexDigitOf c of Some d \<Rightarrow> int d | None \<Rightarrow> 0)) 0 ds"

definition radixDigits :: "nat \<Rightarrow> jstring \<Rightarrow> bool" where
  "radixDigits r ds =
     (ds \<noteq> [] \<and> list_all (\<lambda>c. case hexDigitOf c of Some d \<Rightarrow> d < r | None \<Rightarrow> False) ds)"

text \<open>\<open>SignedInteger\<close> of the exponent part: an optional sign and one digit or more.\<close>

definition parseSignedInteger :: "jstring \<Rightarrow> int option" where
  "parseSignedInteger s =
     (let neg = (s \<noteq> [] \<and> hd s = chr CHR ''-'');
          ds = (if s \<noteq> [] \<and> (hd s = chr CHR ''+'' \<or> hd s = chr CHR ''-'') then tl s else s) in
      if radixDigits 10 ds then Some (if neg then - radixVal 10 ds else radixVal 10 ds)
      else None)"

text \<open>
  \<open>StrUnsignedDecimalLiteral\<close> other than \<open>Infinity\<close>: digits, an optional point and
  digits (a digit on one side of the point at least), an optional exponent. The result
  is the mantissa and the power of ten.
\<close>

definition parseUnsignedDecimal :: "jstring \<Rightarrow> (int \<times> int) option" where
  "parseUnsignedDecimal s =
     (let ip = takeWhile isDigit s;
          r1 = dropWhile isDigit s;
          hasDot = (r1 \<noteq> [] \<and> hd r1 = chr CHR ''.'');
          fp = (if hasDot then takeWhile isDigit (tl r1) else []);
          r2 = (if hasDot then dropWhile isDigit (tl r1) else r1) in
      if ip = [] \<and> fp = [] then None
      else if r2 = [] then Some (radixVal 10 (ip @ fp), - int (length fp))
      else if hd r2 = chr CHR ''e'' \<or> hd r2 = chr CHR ''E'' then
        (case parseSignedInteger (tl r2) of
           None \<Rightarrow> None
         | Some ex \<Rightarrow> Some (radixVal 10 (ip @ fp), ex - int (length fp)))
      else None)"

text \<open>
  What a string reads as, before any rounding: not a numeric literal, an infinity with
  its sign, or the value \<open>m * 10 ^ e\<close>. White space around the literal is dropped and
  the empty string is 0; a literal is hexadecimal, octal or binary with its prefix and
  no sign, or decimal with an optional sign.
\<close>

datatype literal = NotNumeric | InfinityLiteral bool | DecimalValue int int

definition literalValue :: "jstring \<Rightarrow> literal" where
  "literalValue s =
     (let t = trim s in
      if t = [] then DecimalValue 0 0
      else if take 2 t = str ''0x'' \<or> take 2 t = str ''0X'' then
        (if radixDigits 16 (drop 2 t) then DecimalValue (radixVal 16 (drop 2 t)) 0
         else NotNumeric)
      else if take 2 t = str ''0o'' \<or> take 2 t = str ''0O'' then
        (if radixDigits 8 (drop 2 t) then DecimalValue (radixVal 8 (drop 2 t)) 0
         else NotNumeric)
      else if take 2 t = str ''0b'' \<or> take 2 t = str ''0B'' then
        (if radixDigits 2 (drop 2 t) then DecimalValue (radixVal 2 (drop 2 t)) 0
         else NotNumeric)
      else
        let neg = (hd t = chr CHR ''-'');
            u = (if hd t = chr CHR ''+'' \<or> hd t = chr CHR ''-'' then tl t else t) in
        if u = str ''Infinity'' then InfinityLiteral neg
        else
          (case parseUnsignedDecimal u of
             None \<Rightarrow> NotNumeric
           | Some (m, e) \<Rightarrow> DecimalValue (if neg then - m else m) e))"

text \<open>
  \<open>StringToNumber\<close>: \<open>NaN\<close> for a string that is no numeric literal, otherwise the double
  nearest to the value of the literal, as the engines compute it for a literal of any
  length.
\<close>

definition stringToNumber :: "jstring \<Rightarrow> number" where
  "stringToNumber s =
     (case literalValue s of
        NotNumeric \<Rightarrow> NaN
      | InfinityLiteral neg \<Rightarrow> (if neg then NegInfinity else PosInfinity)
      | DecimalValue m e \<Rightarrow> decimal m e)"

text \<open>\<open>Number(token)\<close> for a token that may be \<open>undefined\<close>.\<close>

definition jsNumber :: "jstring option \<Rightarrow> number" where
  "jsNumber token = (case token of None \<Rightarrow> NaN | Some s \<Rightarrow> stringToNumber s)"

text \<open>The Level of \<open>createEmptyLevel\<close>; its numeric literals are doubles.\<close>


definition createEmptyLevel :: Level where
  "createEmptyLevel =
     \<lparr> header = \<lparr> version = 4, attempt_order = None, shed = None, inner_push = None,
                  draw_style = None, custom_level_music = None,
                  custom_level_palette = None, unknown = [] \<rparr>,
       roots = [Block \<lparr> b_x = -1, b_y = -1, b_id = 0, b_width = 9, b_height = 9,
                        b_hue = decimal 6 (- 1), b_sat = decimal 8 (- 1), b_val = decimal 1 0,
                        b_zoomfactor = decimal 1 0, b_fillwithwalls = False,
                        b_player = False, b_possessable = False, b_playerorder = 0,
                        b_fliph = False, b_floatinspace = False, b_specialeffect = 0 \<rparr> []] \<rparr>"


section \<open>The text format (parabox/format.ts)\<close>

datatype ParseError = ParseError jstring nat

definition toInt :: "jstring option \<Rightarrow> int \<Rightarrow> int" where
  "toInt token fallback =
     (case token of
        None \<Rightarrow> fallback
      | Some s \<Rightarrow> (case jsNumber (Some s) of Finite m e \<Rightarrow> truncInt m e | _ \<Rightarrow> fallback))"

definition toFloat :: "jstring option \<Rightarrow> number \<Rightarrow> number" where
  "toFloat token fallback =
     (case token of
        None \<Rightarrow> fallback
      | Some s \<Rightarrow> (case jsNumber (Some s) of Finite m e \<Rightarrow> Finite m e | _ \<Rightarrow> fallback))"

definition toBool01 :: "jstring option \<Rightarrow> int \<Rightarrow> bool" where
  "toBool01 token fallback = (let n = toInt token fallback in (if n = 1 then True else False))"

subsection \<open>Objects\<close>

definition replaceChar :: "unit16 \<Rightarrow> unit16 \<Rightarrow> jstring \<Rightarrow> jstring" where
  "replaceChar a b s = map (\<lambda>c. if c = a then b else c) s"

definition parseFloorType :: "jstring \<Rightarrow> FloorType" where
  "parseFloorType raw =
     (let tokens = filter (\<lambda>t. t \<noteq> []) (splitWs raw) in
      case tokens of
        [] \<Rightarrow> Unknown []
      | head # others \<Rightarrow>
          if head = str ''Button'' then Button
          else if head = str ''PlayerButton'' then PlayerButton
          else if head = str ''Break'' then Break
          else if head = str ''FastTravel'' then FastTravel
          else if head = str ''Gallery'' then Gallery
          else if head = str ''DemoEnd'' then DemoEnd
          else if head = str ''Portal'' then Portal (joinSp others)
          else if head = str ''Info'' then Info (replaceChar (chr CHR ''_'') (chr CHR '' '') (joinSp others))
          else Unknown raw)"

definition parseObject :: "jstring \<Rightarrow> jstring list \<Rightarrow> nat \<Rightarrow> ParseError + Obj" where
  "parseObject kind args line =
     (if kind = str ''Block'' then
        Inr (BlockObj (Block
          \<lparr> b_x = toInt (at_index args 0) 0,
            b_y = toInt (at_index args 1) 0,
            b_id = toInt (at_index args 2) 0,
            b_width = toInt (at_index args 3) 1,
            b_height = toInt (at_index args 4) 1,
            b_hue = toFloat (at_index args 5) (decimal 6 (- 1)),
            b_sat = toFloat (at_index args 6) (decimal 8 (- 1)),
            b_val = toFloat (at_index args 7) (decimal 1 0),
            b_zoomfactor = toFloat (at_index args 8) (decimal 1 0),
            b_fillwithwalls = toBool01 (at_index args 9) 0,
            b_player = toBool01 (at_index args 10) 0,
            b_possessable = toBool01 (at_index args 11) 0,
            b_playerorder = toInt (at_index args 12) 0,
            b_fliph = toBool01 (at_index args 13) 0,
            b_floatinspace = toBool01 (at_index args 14) 0,
            b_specialeffect = toInt (at_index args 15) 0 \<rparr> []))
      else if kind = str ''Ref'' then
        Inr (RefObj
          \<lparr> r_x = toInt (at_index args 0) 0,
            r_y = toInt (at_index args 1) 0,
            r_id = toInt (at_index args 2) 0,
            r_exitblock = toBool01 (at_index args 3) 0,
            r_infexit = toBool01 (at_index args 4) 0,
            r_infexitnum = toInt (at_index args 5) 0,
            r_infenter = toBool01 (at_index args 6) 0,
            r_infenternum = toInt (at_index args 7) 0,
            r_infenterid = toInt (at_index args 8) (- 1),
            r_player = toBool01 (at_index args 9) 0,
            r_possessable = toBool01 (at_index args 10) 0,
            r_playerorder = toInt (at_index args 11) 0,
            r_fliph = toBool01 (at_index args 12) 0,
            r_floatinspace = toBool01 (at_index args 13) 0,
            r_specialeffect = toInt (at_index args 14) 0 \<rparr>)
      else if kind = str ''Wall'' then
        Inr (WallObj
          \<lparr> w_x = toInt (at_index args 0) 0,
            w_y = toInt (at_index args 1) 0,
            w_player = toBool01 (at_index args 2) 0,
            w_possessable = toBool01 (at_index args 3) 0,
            w_playerorder = toInt (at_index args 4) 0 \<rparr>)
      else if kind = str ''Floor'' then
        (let x = toInt (at_index args 0) 0;
             y = toInt (at_index args 1) 0;
             rest = joinSp (drop 2 args) in
         Inr (FloorObj \<lparr> f_x = x, f_y = y, f_type = parseFloorType rest \<rparr>))
      else Inl (ParseError (str ''Unknown object kind: '' @ kind) line))"

subsection \<open>The header\<close>

text \<open>The lines of the text: line ends normalised, split, trailing spaces and tabs removed.\<close>

fun replaceCRLF :: "jstring \<Rightarrow> jstring" where
  "replaceCRLF [] = []"
| "replaceCRLF [c] = [c]"
| "replaceCRLF (c # d # cs) =
     (if c = 0x0D \<and> d = 0x0A then 0x0A # replaceCRLF cs
      else c # replaceCRLF (d # cs))"

definition stripTrailing :: "jstring \<Rightarrow> jstring" where
  "stripTrailing l = rev (dropWhile (\<lambda>c. c = chr CHR '' '' \<or> c = 0x09) (rev l))"

definition textLines :: "jstring \<Rightarrow> jstring list" where
  "textLines txt =
     (let rawLines = splitNL (replaceChar 0x0D 0x0A (replaceCRLF txt)) in
      map stripTrailing rawLines)"

definition initialHeader :: LevelHeader where
  "initialHeader =
     \<lparr> version = 4, attempt_order = None, shed = None, inner_push = None,
       draw_style = None, custom_level_music = None, custom_level_palette = None,
       unknown = [] \<rparr>"

text \<open>
  The body of the first loop for a line that is neither blank nor the terminator:
  \<open>i\<close> is the index of the line.
\<close>

definition headerLine :: "jstring \<Rightarrow> nat \<Rightarrow> LevelHeader \<Rightarrow> ParseError + LevelHeader" where
  "headerLine line i h =
     (let tokens = splitWs (trim line);
          key = hd tokens in
      if key = str ''version'' then
        (case jsNumber (at_index tokens 1) of
           Finite m e \<Rightarrow> Inr (h\<lparr>version := truncInt m e\<rparr>)
         | _ \<Rightarrow> Inl (ParseError (str ''Invalid version'') (i + 1)))
      else if key = str ''attempt_order'' then Inr (h\<lparr>attempt_order := Some (joinSp (drop 1 tokens))\<rparr>)
      else if key = str ''shed'' then Inr (h\<lparr>shed := Some True\<rparr>)
      else if key = str ''inner_push'' then Inr (h\<lparr>inner_push := Some True\<rparr>)
      else if key = str ''draw_style'' then
        (let style = at_index tokens 1 in
         if style = Some (str ''tui'') then Inr (h\<lparr>draw_style := Some tui\<rparr>)
         else if style = Some (str ''grid'') then Inr (h\<lparr>draw_style := Some grid\<rparr>)
         else if style = Some (str ''oldstyle'') then Inr (h\<lparr>draw_style := Some oldstyle\<rparr>)
         else Inr (h\<lparr>unknown := unknown h @ [line]\<rparr>))
      else if key = str ''custom_level_music'' then
        Inr (h\<lparr>custom_level_music := Some (toInt (at_index tokens 1) (- 1))\<rparr>)
      else if key = str ''custom_level_palette'' then
        Inr (h\<lparr>custom_level_palette := Some (toInt (at_index tokens 1) (- 1))\<rparr>)
      else Inr (h\<lparr>unknown := unknown h @ [line]\<rparr>))"

text \<open>
  The first loop, over the lines from index \<open>i\<close> on. It ends after the terminator or at
  the end of the lines, and gives the header, the lines left and their index.
\<close>

fun headerLoop ::
  "jstring list \<Rightarrow> nat \<Rightarrow> LevelHeader \<Rightarrow> ParseError + (LevelHeader \<times> jstring list \<times> nat)" where
  "headerLoop [] i h = Inr (h, [], i)"
| "headerLoop (line # rest) i h =
     (if trim line = [] then headerLoop rest (i + 1) h
      else if trim line = str ''#'' then Inr (h, rest, i + 1)
      else
        (case headerLine line i h of
           Inl err \<Rightarrow> Inl err
         | Inr h' \<Rightarrow> headerLoop rest (i + 1) h'))"

subsection \<open>The body\<close>

text \<open>
  The stack of the second loop holds the open Blocks, and each of them is the object
  that was pushed last into the one below it (the lowest into \<open>roots\<close>): pushes into a
  Block of the stack happen only after the stack was cut back to that Block. So the
  state kept here is \<open>roots\<close> and the length of the stack; the stack's entry \<open>k\<close> is the
  Block reached from the last root by \<open>k\<close> steps to the last child, and
  \<open>parent.children.push(obj)\<close> for the top of a stack of length \<open>n + 1\<close> is
  \<open>pushChild n obj\<close> on the last root.
\<close>

fun pushChild :: "nat \<Rightarrow> Obj \<Rightarrow> Block \<Rightarrow> Block" where
  "pushChild 0 obj (Block f cs) = Block f (cs @ [obj])"
| "pushChild (Suc n) obj (Block f cs) =
     (if cs = [] then Block f cs
      else
        (case last cs of
           BlockObj c \<Rightarrow> Block f (butlast cs @ [BlockObj (pushChild n obj c)])
         | _ \<Rightarrow> Block f cs))"

definition pushToParent :: "Block list \<Rightarrow> nat \<Rightarrow> Obj \<Rightarrow> Block list" where
  "pushToParent rs stackLen obj = butlast rs @ [pushChild (stackLen - 1) obj (last rs)]"

fun kindOf :: "Obj \<Rightarrow> jstring" where
  "kindOf (BlockObj b) = str ''Block''"
| "kindOf (RefObj r) = str ''Ref''"
| "kindOf (WallObj w) = str ''Wall''"
| "kindOf (FloorObj f) = str ''Floor''"

text \<open>
  \<open>raw.match(/^(\t*)(.*)$/)\<close>: the dot matches no line terminator and \<open>$\<close> matches the
  end of the line only, so the pattern matches the lines that hold no line terminator;
  the groups are then the leading tabs and the rest of the line. The lines of
  \<open>textLines\<close> hold no line feed and no carriage return, but may hold U+2028 or U+2029.
\<close>

definition matchLine :: "jstring \<Rightarrow> (jstring \<times> jstring) option" where
  "matchLine raw =
     (if list_ex isLineTerminator raw then None
      else Some (takeWhile (\<lambda>c. c = 0x09) raw, dropWhile (\<lambda>c. c = 0x09) raw))"

text \<open>
  The body of the second loop for the line of index \<open>i\<close>; the state is \<open>roots\<close> and the
  length of the stack. A blank line, a line that the pattern does not match and a line
  with nothing after its tabs are skipped.
\<close>

definition bodyLine ::
  "jstring \<Rightarrow> nat \<Rightarrow> Block list \<times> nat \<Rightarrow> ParseError + (Block list \<times> nat)" where
  "bodyLine raw i st =
     (if trim raw = [] then Inr st
      else
        (case matchLine raw of
           None \<Rightarrow> Inr st
         | Some (tabs, rest) \<Rightarrow>
             let depth = length tabs;
                 content = trim rest in
             if content = [] then Inr st
             else
               let tokens = splitWs content;
                   kind = hd tokens;
                   rs = fst st;
                   stackLen = min (snd st) depth in
               if depth > stackLen then
                 Inl (ParseError (str ''Invalid indentation (no parent block at that depth)'')
                        (i + 1))
               else
                 (case parseObject kind (drop 1 tokens) (i + 1) of
                    Inl err \<Rightarrow> Inl err
                  | Inr obj \<Rightarrow>
                      (case obj of
                         BlockObj b \<Rightarrow>
                           if stackLen > 0 then Inr (pushToParent rs stackLen obj, stackLen + 1)
                           else Inr (rs @ [b], stackLen + 1)
                       | _ \<Rightarrow>
                           if stackLen = 0 then
                             Inl (ParseError (kindOf obj @ str '' must be inside a Block'')
                                    (i + 1))
                           else Inr (pushToParent rs stackLen obj, stackLen)))))"

fun bodyLoop ::
  "jstring list \<Rightarrow> nat \<Rightarrow> Block list \<times> nat \<Rightarrow> ParseError + (Block list \<times> nat)" where
  "bodyLoop [] i st = Inr st"
| "bodyLoop (raw # rest) i st =
     (case bodyLine raw i st of
        Inl err \<Rightarrow> Inl err
      | Inr st' \<Rightarrow> bodyLoop rest (i + 1) st')"

definition parseLevel :: "jstring \<Rightarrow> ParseError + Level" where
  "parseLevel txt =
     (let lines = textLines txt in
      case headerLoop lines 0 initialHeader of
        Inl err \<Rightarrow> Inl err
      | Inr (h, rest, i) \<Rightarrow>
          if \<not> isFinite (Finite (version h) 0) then
            Inl (ParseError (str ''Missing version header'') 1)
          else
            (case bodyLoop rest i ([], 0) of
               Inl err \<Rightarrow> Inl err
             | Inr (rs, stackLen) \<Rightarrow>
                 if length rs = 0 then Inl (ParseError (str ''No root Block found'') (length lines))
                 else Inr \<lparr> header = h, roots = rs \<rparr>))"

subsection \<open>Conditions on header lines\<close>

text \<open>
  The lines have a terminator when one of them is \<open>#\<close> once trimmed. A version line is
  invalid when its second token is missing or does not read as a finite number (\<open>Number\<close>
  gives \<open>NaN\<close> or an infinity). The third
  condition follows the words of the specification for the lines that go to the
  \<open>unknown\<close> list: a \<open>draw_style\<close> line whose value is none of the three styles, or a
  line whose first token is no recognised key.
\<close>

definition hasTerminator :: "jstring list \<Rightarrow> bool" where
  "hasTerminator ls = list_ex (\<lambda>l. trim l = str ''#'') ls"

definition invalidVersionLine :: "jstring \<Rightarrow> bool" where
  "invalidVersionLine l =
     (trim l \<noteq> [] \<and> hd (splitWs (trim l)) = str ''version''
      \<and> \<not> isFinite (jsNumber (at_index (splitWs (trim l)) 1)))"

definition keptAsUnknown :: "jstring \<Rightarrow> bool" where
  "keptAsUnknown l =
     (let tokens = splitWs (trim l);
          key = hd tokens in
      if key = str ''draw_style'' then
        at_index tokens 1 \<noteq> Some (str ''tui'') \<and> at_index tokens 1 \<noteq> Some (str ''grid'')
        \<and> at_index tokens 1 \<noteq> Some (str ''oldstyle'')
      else
        key \<noteq> str ''version'' \<and> key \<noteq> str ''attempt_order'' \<and> key \<noteq> str ''shed''
        \<and> key \<noteq> str ''inner_push'' \<and> key \<noteq> str ''custom_level_music''
        \<and> key \<noteq> str ''custom_level_palette'')"

text \<open>Texts used as examples below.\<close>

definition noVersionText :: jstring where
  "noVersionText = str ''#'' @ [0x0A] @ str ''Block 0 0 0 1 1''"

definition musicText :: jstring where
  "musicText = str ''custom_level_music abc'' @ [0x0A] @ str ''draw_style foo'' @ [0x0A]
     @ str '' zzz 1  '' @ [0x0A] @ str ''shed'' @ [0x0A] @ str ''#'' @ [0x0A] @ str ''Block''"

definition badIndentText :: jstring where
  "badIndentText = str ''#'' @ [0x0A] @ str ''Block'' @ [0x0A] @ [0x09, 0x09] @ str ''Wall''"

definition lateVersionText :: jstring where
  "lateVersionText = str ''shed'' @ [0x0A] @ str ''version''"

definition overflowText :: jstring where
  "overflowText = str ''version 1e999''"

definition separatorLine :: jstring where
  "separatorLine = [0x09, 0x09] @ str ''Wall'' @ [0x2028]"

definition separatorText :: jstring where
  "separatorText = str ''#'' @ [0x0A] @ str ''Block'' @ [0x0A] @ separatorLine"

text \<open>The Block that the line \<open>Block\<close> gives: every field has its default.\<close>

definition plainBlock :: Block where
  "plainBlock =
     Block \<lparr> b_x = 0, b_y = 0, b_id = 0, b_width = 1, b_height = 1,
             b_hue = decimal 6 (- 1), b_sat = decimal 8 (- 1), b_val = decimal 1 0,
             b_zoomfactor = decimal 1 0, b_fillwithwalls = False, b_player = False,
             b_possessable = False, b_playerorder = 0, b_fliph = False,
             b_floatinspace = False, b_specialeffect = 0 \<rparr> []"


section \<open>Editor state (editor/editorState.ts)\<close>

datatype FloorKind = ButtonKind | PlayerButtonKind

datatype Tool = SelectTool | WallTool | FloorTool FloorKind | BlockTool | RefTool "int option"

record Viewport =
  panX :: number
  panY :: number
  zoom :: number

record History =
  past :: "Level list"
  future :: "Level list"

record EditorState =
  level :: Level
  selectedBlockPath :: "nat list"
  tool :: Tool
  viewport :: Viewport
  lastError :: "jstring option"
  history :: History

definition createInitialState :: EditorState where
  "createInitialState =
     \<lparr> level = createEmptyLevel, selectedBlockPath = [0], tool = SelectTool,
       viewport = \<lparr> panX = decimal 0 0, panY = decimal 0 0, zoom = decimal 48 0 \<rparr>,
       lastError = None, history = \<lparr> past = [], future = [] \<rparr> \<rparr>"

subsection \<open>Path addressing\<close>

text \<open>The loop of \<open>getBlockByPath\<close> from \<open>i = 1\<close> on, over the rest of the path.\<close>

fun walkPath :: "Block option \<Rightarrow> nat list \<Rightarrow> Block option" where
  "walkPath current [] = current"
| "walkPath current (idx # rest) =
     (case current of
        None \<Rightarrow> None
      | Some b \<Rightarrow>
          (case at_index (children b) idx of
             Some (BlockObj c) \<Rightarrow> walkPath (Some c) rest
           | _ \<Rightarrow> None))"

definition getBlockByPath :: "Level \<Rightarrow> nat list \<Rightarrow> Block option" where
  "getBlockByPath lv path =
     (case path of
        [] \<Rightarrow> None
      | i # rest \<Rightarrow> walkPath (at_index (roots lv) i) rest)"

text \<open>\<open>structuredClone\<close> copies a value; values have no identity here.\<close>

definition cloneLevel :: "Level \<Rightarrow> Level" where
  "cloneLevel lv = lv"

text \<open>
  An assignment \<open>arr[i] = v\<close> replaces the element when \<open>i\<close> is inside the array and
  appends when \<open>i\<close> is its length. Beyond the length JavaScript leaves holes before the
  new element: such an array is not a list, and the outcome is \<open>Sparse\<close>.
\<close>

datatype 'a stored = Stored 'a | Sparse

definition map_stored :: "('a \<Rightarrow> 'b) \<Rightarrow> 'a stored \<Rightarrow> 'b stored" where
  "map_stored f s = (case s of Stored a \<Rightarrow> Stored (f a) | Sparse \<Rightarrow> Sparse)"

definition arrayStore :: "'a list \<Rightarrow> nat \<Rightarrow> 'a \<Rightarrow> 'a list stored" where
  "arrayStore xs i v =
     (if i < length xs then Stored (xs[i := v])
      else if i = length xs then Stored (xs @ [v])
      else Sparse)"

text \<open>
  \<open>parent.children[k] = block\<close>, where \<open>parent\<close> is the object that \<open>getBlockByPath\<close>
  found inside the copy: the write shows in the copy at the end of the same walk.
\<close>

fun storeChild :: "Block \<Rightarrow> nat list \<Rightarrow> nat \<Rightarrow> Block \<Rightarrow> Block stored" where
  "storeChild (Block f cs) [] k v = map_stored (Block f) (arrayStore cs k (BlockObj v))"
| "storeChild (Block f cs) (idx # rest) k v =
     (case at_index cs idx of
        Some (BlockObj c) \<Rightarrow>
          map_stored (\<lambda>c'. Block f (cs[idx := BlockObj c'])) (storeChild c rest k v)
      | _ \<Rightarrow> Stored (Block f cs))"

definition setBlockAtPath :: "Level \<Rightarrow> nat list \<Rightarrow> Block \<Rightarrow> Level stored" where
  "setBlockAtPath lv path block =
     (let nxt = cloneLevel lv in
      if length path = 0 then Stored nxt
      else if length path = 1 then
        map_stored (\<lambda>rs. nxt\<lparr>roots := rs\<rparr>) (arrayStore (roots nxt) (path ! 0) block)
      else
        let parentPath = butlast path in
        (case getBlockByPath nxt parentPath of
           None \<Rightarrow> Stored nxt
         | Some parent \<Rightarrow>
             map_stored (\<lambda>r. nxt\<lparr>roots := (roots nxt)[hd parentPath := r]\<rparr>)
               (storeChild (roots nxt ! hd parentPath) (tl parentPath) (last path) block)))"

subsection \<open>History\<close>

definition pushHistory :: "EditorState \<Rightarrow> Level \<Rightarrow> EditorState" where
  "pushHistory st nxt =
     st\<lparr>level := nxt,
        history := \<lparr> past = past (history st) @ [level st], future = [] \<rparr>\<rparr>"

definition undo :: "EditorState \<Rightarrow> EditorState" where
  "undo st =
     (let p = past (history st) in
      if length p = 0 then st
      else
        let prev = last p in
        st\<lparr>level := prev,
           history := \<lparr> past = butlast p, future = level st # future (history st) \<rparr>\<rparr>)"

definition redo :: "EditorState \<Rightarrow> EditorState" where
  "redo st =
     (let fu = future (history st) in
      if length fu = 0 then st
      else
        let nxt = hd fu in
        st\<lparr>level := nxt,
           history := \<lparr> past = past (history st) @ [level st], future = tl fu \<rparr>\<rparr>)"

subsection \<open>Cell helpers\<close>

text \<open>\<open>findIndex\<close>: the first index whose element satisfies the test, \<open>None\<close> for -1.\<close>

fun findIndex :: "('a \<Rightarrow> bool) \<Rightarrow> 'a list \<Rightarrow> nat option" where
  "findIndex p [] = None"
| "findIndex p (a # as) =
     (if p a then Some 0 else (case findIndex p as of None \<Rightarrow> None | Some i \<Rightarrow> Some (Suc i)))"

definition isWallAt :: "int \<Rightarrow> int \<Rightarrow> Obj \<Rightarrow> bool" where
  "isWallAt x y c = (case c of WallObj w \<Rightarrow> w_x w = x \<and> w_y w = y | _ \<Rightarrow> False)"

definition isFloorAt :: "int \<Rightarrow> int \<Rightarrow> Obj \<Rightarrow> bool" where
  "isFloorAt x y c = (case c of FloorObj f \<Rightarrow> f_x f = x \<and> f_y f = y | _ \<Rightarrow> False)"

text \<open>The coordinates \<open>c.x\<close>, \<open>c.y\<close> of any object.\<close>

fun obj_x :: "Obj \<Rightarrow> int" where
  "obj_x (BlockObj b) = b_x (attrs b)"
| "obj_x (RefObj r) = r_x r"
| "obj_x (WallObj w) = w_x w"
| "obj_x (FloorObj f) = f_x f"

fun obj_y :: "Obj \<Rightarrow> int" where
  "obj_y (BlockObj b) = b_y (attrs b)"
| "obj_y (RefObj r) = r_y r"
| "obj_y (WallObj w) = w_y w"
| "obj_y (FloorObj f) = f_y f"

fun isBlockObj :: "Obj \<Rightarrow> bool" where
  "isBlockObj (BlockObj b) = True"
| "isBlockObj c = False"

definition upsertWall :: "Block \<Rightarrow> int \<Rightarrow> int \<Rightarrow> Block" where
  "upsertWall block x y =
     (let cs = children block in
      case findIndex (isWallAt x y) cs of
        Some idx \<Rightarrow> Block (attrs block) (take idx cs @ drop (Suc idx) cs)
      | None \<Rightarrow>
          Block (attrs block)
            (cs @ [WallObj \<lparr> w_x = x, w_y = y, w_player = False, w_possessable = False,
                             w_playerorder = 0 \<rparr>]))"

definition upsertFloor :: "Block \<Rightarrow> int \<Rightarrow> int \<Rightarrow> FloorType \<Rightarrow> Block" where
  "upsertFloor block x y floor =
     (let cs = children block;
          obj = FloorObj \<lparr> f_x = x, f_y = y, f_type = floor \<rparr> in
      case findIndex (isFloorAt x y) cs of
        Some idx \<Rightarrow> Block (attrs block) (cs[idx := obj])
      | None \<Rightarrow> Block (attrs block) (cs @ [obj]))"

text \<open>The test of the filters in \<open>removeAt\<close> and \<open>addRef\<close>: keep Blocks, drop leaves at the cell.\<close>

definition keepAt :: "int \<Rightarrow> int \<Rightarrow> Obj \<Rightarrow> bool" where
  "keepAt x y c = (if isBlockObj c then True else \<not> (obj_x c = x \<and> obj_y c = y))"

definition removeAt :: "Block \<Rightarrow> int \<Rightarrow> int \<Rightarrow> Block" where
  "removeAt block x y = Block (attrs block) (filter (keepAt x y) (children block))"

definition addRef :: "Block \<Rightarrow> int \<Rightarrow> int \<Rightarrow> int \<Rightarrow> Block" where
  "addRef block x y i =
     (let ref = \<lparr> r_x = x, r_y = y, r_id = i, r_exitblock = False, r_infexit = False,
                  r_infexitnum = 0, r_infenter = False, r_infenternum = 0,
                  r_infenterid = -1, r_player = False, r_possessable = False,
                  r_playerorder = 0, r_fliph = False, r_floatinspace = False,
                  r_specialeffect = 0 \<rparr> in
      Block (attrs block) (filter (keepAt x y) (children block) @ [RefObj ref]))"

subsection \<open>Hit testing\<close>



definition leafAt :: "int \<Rightarrow> int \<Rightarrow> Obj \<Rightarrow> bool" where
  "leafAt x y c = (\<not> isBlockObj c \<and> obj_x c = x \<and> obj_y c = y)"




subsection \<open>Cell occupancy\<close>

text \<open>
  The cell of an object. A children array has one leaf per cell at most when no two of
  its leaves (objects other than Blocks) share a cell. The last condition says that the
  cell \<open>(x, y)\<close> holds a leaf of another kind than \<open>own\<close>.
\<close>

definition cellOf :: "Obj \<Rightarrow> int \<times> int" where
  "cellOf c = (obj_x c, obj_y c)"

definition oneLeafPerCell :: "Obj list \<Rightarrow> bool" where
  "oneLeafPerCell cs = distinct (map cellOf (filter (\<lambda>c. \<not> isBlockObj c) cs))"

fun isWallObj :: "Obj \<Rightarrow> bool" where
  "isWallObj (WallObj w) = True"
| "isWallObj c = False"

fun isFloorObj :: "Obj \<Rightarrow> bool" where
  "isFloorObj (FloorObj f) = True"
| "isFloorObj c = False"

definition otherLeafAt :: "(Obj \<Rightarrow> bool) \<Rightarrow> int \<Rightarrow> int \<Rightarrow> Obj list \<Rightarrow> bool" where
  "otherLeafAt own x y cs = list_ex (\<lambda>c. leafAt x y c \<and> \<not> own c) cs"

text \<open>Inputs used as examples below.\<close>

definition floorBlock :: Block where
  "floorBlock = Block (attrs (hd (roots createEmptyLevel)))
                  [FloorObj \<lparr> f_x = 0, f_y = 0, f_type = Button \<rparr>]"


definition hitBlock :: Block where
  "hitBlock =
     Block (attrs (hd (roots createEmptyLevel)))
       [BlockObj (Block ((attrs (hd (roots createEmptyLevel)))
                    \<lparr>b_x := 0, b_y := 0, b_id := 1, b_width := 2, b_height := 2\<rparr>) []),
        WallObj \<lparr> w_x = 1, w_y = 1, w_player = False, w_possessable = False,
                  w_playerorder = 0 \<rparr>,
        WallObj \<lparr> w_x = 2, w_y = 2, w_player = False, w_possessable = False,
                  w_playerorder = 0 \<rparr>]"

definition levelA :: Level where
  "levelA = createEmptyLevel\<lparr>roots := [hitBlock]\<rparr>"

definition levelB :: Level where
  "levelB = createEmptyLevel\<lparr>roots := [floorBlock]\<rparr>"
section \<open>Properties of the editor state\<close>

subsection \<open>Replacing a Block at a path\<close>

text \<open>
  C2, as the code has it. \<open>setBlockAtPath\<close> returns a Level equal to its input when the
  path is empty, and when the path has two or more indices and the path without its last
  index does not resolve to a Block. The last index is never checked: with a single
  index inside the roots array that root is replaced, with the index equal to the number
  of roots the Block is appended, and beyond that the array gets holes.
\<close>

theorem setBlockAtPath_noop:
  "setBlockAtPath lv [] b = Stored lv
   \<and> (2 \<le> length path \<and> getBlockByPath lv (butlast path) = None \<longrightarrow>
        setBlockAtPath lv path b = Stored lv)
   \<and> (i < length (roots lv) \<longrightarrow>
        setBlockAtPath lv [i] b = Stored (lv\<lparr>roots := (roots lv)[i := b]\<rparr>))
   \<and> setBlockAtPath lv [length (roots lv)] b = Stored (lv\<lparr>roots := roots lv @ [b]\<rparr>)
   \<and> (length (roots lv) < i \<longrightarrow> setBlockAtPath lv [i] b = Sparse)"
  by (simp add: setBlockAtPath_def cloneLevel_def Let_def arrayStore_def map_stored_def)


theorem setBlockAtPath_noop_witness:
  "getBlockByPath levelA [1, 0] = None
   \<and> setBlockAtPath levelA [1, 0, 0] floorBlock = Stored levelA
   \<and> setBlockAtPath levelA [0] floorBlock = Stored levelB
   \<and> setBlockAtPath levelA [2] floorBlock = Sparse"
proof -
  have h: "2 \<le> length [1, 0, 0::nat] \<and> getBlockByPath levelA (butlast [1, 0, 0]) = None"
    by (simp add: getBlockByPath_def at_index_def levelA_def createEmptyLevel_def)
  have i: "0 < length (roots levelA)" "length (roots levelA) < 2"
    by (simp_all add: levelA_def)
  have e: "levelA\<lparr>roots := (roots levelA)[0 := floorBlock]\<rparr> = levelB"
    by (simp add: levelA_def levelB_def)
  from setBlockAtPath_noop[of levelA floorBlock "[1, 0, 0]" 0] h i(1) e
  have a: "setBlockAtPath levelA [1, 0, 0] floorBlock = Stored levelA"
    "setBlockAtPath levelA [0] floorBlock = Stored levelB" by simp_all
  from setBlockAtPath_noop[of levelA floorBlock "[]" 2] i(2)
  have "setBlockAtPath levelA [2] floorBlock = Sparse" by simp
  with a h show ?thesis by simp
qed

text \<open>
  C2 as stated fails: the path \<open>[1]\<close> does not resolve in a Level with one root, and the
  Level returned has two roots.
\<close>

theorem setBlockAtPath_root_out_of_range:
  "getBlockByPath createEmptyLevel [1] = None
   \<and> setBlockAtPath createEmptyLevel [1] (hd (roots createEmptyLevel))
       \<noteq> Stored createEmptyLevel"
  by (simp add: getBlockByPath_def at_index_def setBlockAtPath_def cloneLevel_def Let_def
      arrayStore_def map_stored_def createEmptyLevel_def)


subsection \<open>History\<close>

lemma undo_level_past:
  "past (history st) = p @ xs \<Longrightarrow>
   level ((undo ^^ length xs) st) = hd (xs @ [level st])
   \<and> past (history ((undo ^^ length xs) st)) = p
   \<and> future (history ((undo ^^ length xs) st)) = tl (xs @ [level st]) @ future (history st)"
proof (induction xs arbitrary: st rule: rev_induct)
  case Nil
  then show ?case by simp
next
  case (snoc y ys)
  have u: "past (history (undo st)) = p @ ys" "level (undo st) = y"
    "future (history (undo st)) = level st # future (history st)"
    using snoc.prems by (simp_all add: undo_def Let_def butlast_append)
  have "(undo ^^ length (ys @ [y])) st = (undo ^^ length ys) (undo st)"
    by (simp add: funpow_swap1)
  with snoc.IH[OF u(1)] u show ?case
    by (cases ys) simp_all
qed

lemma pushes_state:
  "level (foldl pushHistory st edits) = last (level st # edits)
   \<and> past (history (foldl pushHistory st edits)) = past (history st) @ butlast (level st # edits)"
proof (induction edits arbitrary: st)
  case Nil
  then show ?case by simp
next
  case (Cons e es)
  show ?case using Cons.IH[of "pushHistory st e"]
    by (simp add: pushHistory_def)
qed

lemma redo_undo: "past (history st) \<noteq> [] \<Longrightarrow> redo (undo st) = st"
  by (simp add: undo_def redo_def Let_def)


text \<open>
  C3. After the edits of any list are pushed in turn, as many undos as there were edits
  give back the Level and the past that the state had before; where there is something
  to undo, a redo after an undo gives back the state undone (after the undos above, the
  redo restores the first edit, the last one undone); and \<open>pushHistory\<close> leaves the
  future empty.
\<close>

theorem history_linearity:
  "level ((undo ^^ length edits) (foldl pushHistory st edits)) = level st
   \<and> past (history ((undo ^^ length edits) (foldl pushHistory st edits))) = past (history st)
   \<and> (past (history st) \<noteq> [] \<longrightarrow> redo (undo st) = st)
   \<and> (edits \<noteq> [] \<longrightarrow>
        level (redo ((undo ^^ length edits) (foldl pushHistory st edits))) = hd edits)
   \<and> future (history (pushHistory st nxt)) = []"
proof -
  let ?s = "foldl pushHistory st edits"
  let ?xs = "butlast (level st # edits)"
  have len: "length ?xs = length edits" by simp
  have p: "past (history ?s) = past (history st) @ ?xs" and l: "level ?s = last (level st # edits)"
    using pushes_state[of st edits] by simp_all
  have full: "?xs @ [level ?s] = level st # edits"
    unfolding l by (rule append_butlast_last_id) simp
  note u = undo_level_past[OF p, unfolded len full]
  have a: "level ((undo ^^ length edits) ?s) = level st" using u by simp
  have b: "past (history ((undo ^^ length edits) ?s)) = past (history st)" using u by simp
  have f: "future (history ((undo ^^ length edits) ?s)) = edits @ future (history ?s)"
    using u by simp
  have d: "edits \<noteq> [] \<longrightarrow> level (redo ((undo ^^ length edits) ?s)) = hd edits"
    using f by (cases edits) (simp_all add: redo_def Let_def)
  show ?thesis using a b d redo_undo by (simp add: pushHistory_def)
qed


theorem history_linearity_witness:
  "level ((undo ^^ 2) (foldl pushHistory (pushHistory createInitialState levelA) [levelB, levelA]))
     = levelA
   \<and> redo (undo (pushHistory createInitialState levelA)) = pushHistory createInitialState levelA
   \<and> level (redo ((undo ^^ 2)
        (foldl pushHistory (pushHistory createInitialState levelA) [levelB, levelA]))) = levelB"
proof -
  let ?st = "pushHistory createInitialState levelA"
  have h: "past (history ?st) \<noteq> []" "[levelB, levelA] \<noteq> []"
    by (simp_all add: pushHistory_def)
  have l: "level ?st = levelA" by (simp add: pushHistory_def)
  from history_linearity[of "[levelB, levelA]" ?st] h l show ?thesis
    by (simp add: numeral_2_eq_2)
qed

subsection \<open>Hit testing\<close>









subsection \<open>Cell helpers\<close>

lemma findIndex_Some:
  "findIndex p xs = Some i \<Longrightarrow> i < length xs \<and> p (xs ! i)"
  by (induction xs arbitrary: i) (auto split: if_splits option.splits)

lemma findIndex_None: "findIndex p xs = None \<Longrightarrow> \<forall>a\<in>set xs. \<not> p a"
  by (induction xs) (auto split: if_splits option.splits)

lemma distinct_map_filter_filter:
  "distinct (map f (filter p xs)) \<Longrightarrow> distinct (map f (filter (\<lambda>a. q a \<and> p a) xs))"
  by (induction xs) (auto split: if_splits)

lemma removeAt_oneLeaf:
  "oneLeafPerCell (children b) \<Longrightarrow> oneLeafPerCell (children (removeAt b x y))"
  by (simp add: oneLeafPerCell_def removeAt_def distinct_map_filter_filter)

lemma addRef_oneLeaf:
  assumes "oneLeafPerCell (children b)"
  shows "oneLeafPerCell (children (addRef b x y i))"
proof -
  have "(x, y) \<notin> cellOf ` {c \<in> set (children b). keepAt x y c \<and> \<not> isBlockObj c}"
    by (auto simp: keepAt_def cellOf_def)
  then show ?thesis using assms
    by (auto simp: oneLeafPerCell_def addRef_def Let_def cellOf_def
        distinct_map_filter_filter)
qed

lemma distinct_map_filter_remove:
  assumes "distinct (map f (filter p xs))"
  shows "distinct (map f (filter p (take i xs @ drop (Suc i) xs)))"
proof (cases "i < length xs")
  case True
  have "xs = take i xs @ xs ! i # drop (Suc i) xs" using True by (rule id_take_nth_drop)
  then have "distinct (map f (filter p (take i xs @ xs ! i # drop (Suc i) xs)))"
    using assms by simp
  then show ?thesis by (auto split: if_splits)
next
  case False
  then show ?thesis using assms by simp
qed

lemma map_filter_update_same:
  "i < length xs \<Longrightarrow> q (xs ! i) \<Longrightarrow> q v \<Longrightarrow> f v = f (xs ! i) \<Longrightarrow>
   map f (filter q (xs[i := v])) = map f (filter q xs)"
proof (induction xs arbitrary: i)
  case Nil
  then show ?case by simp
next
  case (Cons a xs)
  then show ?case by (cases i) auto
qed

lemma isWallAt_wall: "isWallAt x y c \<Longrightarrow> isWallObj c \<and> leafAt x y c"
  by (cases c) (auto simp: isWallAt_def leafAt_def)

lemma isFloorAt_floor: "isFloorAt x y c \<Longrightarrow> isFloorObj c \<and> leafAt x y c"
  by (cases c) (auto simp: isFloorAt_def leafAt_def)

lemma isWallAt_iff: "isWallAt x y c = (isWallObj c \<and> leafAt x y c)"
  by (cases c) (auto simp: isWallAt_def leafAt_def)

lemma isFloorAt_iff: "isFloorAt x y c = (isFloorObj c \<and> leafAt x y c)"
  by (cases c) (auto simp: isFloorAt_def leafAt_def)

lemma leafAt_cell: "leafAt x y c = (\<not> isBlockObj c \<and> cellOf c = (x, y))"
  by (auto simp: leafAt_def cellOf_def)

lemma upsertWall_absent:
  "findIndex (isWallAt x y) (children b) = None \<Longrightarrow>
   children (upsertWall b x y)
   = children b @ [WallObj \<lparr> w_x = x, w_y = y, w_player = False, w_possessable = False,
                               w_playerorder = 0 \<rparr>]"
  by (simp add: upsertWall_def)

lemma upsertWall_present:
  "findIndex (isWallAt x y) (children b) = Some idx \<Longrightarrow>
   children (upsertWall b x y) = take idx (children b) @ drop (Suc idx) (children b)"
  by (simp add: upsertWall_def Let_def)

lemma upsertFloor_absent:
  "findIndex (isFloorAt x y) (children b) = None \<Longrightarrow>
   children (upsertFloor b x y t) = children b @ [FloorObj \<lparr> f_x = x, f_y = y, f_type = t \<rparr>]"
  by (simp add: upsertFloor_def Let_def)

lemma upsertFloor_present:
  "findIndex (isFloorAt x y) (children b) = Some idx \<Longrightarrow>
   children (upsertFloor b x y t)
   = (children b)[idx := FloorObj \<lparr> f_x = x, f_y = y, f_type = t \<rparr>]"
  by (simp add: upsertFloor_def Let_def)

text \<open>With one leaf per cell, a leaf of kind \<open>own\<close> in a cell is the only leaf there.\<close>

lemma own_leaf_alone:
  assumes "oneLeafPerCell cs" and "idx < length cs" and "own (cs ! idx)"
    and "leafAt x y (cs ! idx)"
  shows "\<not> otherLeafAt own x y cs"
proof
  assume "otherLeafAt own x y cs"
  then obtain c where c: "c \<in> set cs" "leafAt x y c" "\<not> own c"
    by (auto simp: otherLeafAt_def list_ex_iff)
  let ?leaves = "filter (\<lambda>c. \<not> isBlockObj c) cs"
  from assms(1) have inj: "inj_on cellOf (set ?leaves)"
    by (simp add: oneLeafPerCell_def distinct_map)
  from c(1,2) have 1: "c \<in> set ?leaves" by (simp add: leafAt_def)
  from assms(2,4) have 2: "cs ! idx \<in> set ?leaves" by (simp add: leafAt_def)
  from c(2) assms(4) have "cellOf c = cellOf (cs ! idx)" by (simp add: leafAt_def cellOf_def)
  from inj_onD[OF inj this 1 2] c(3) assms(3) show False by simp
qed

text \<open>When the cell holds no leaf of kind \<open>own\<close>, a leaf appended there is alone in its
  cell exactly when the cell holds no other leaf.\<close>

lemma append_leaf:
  assumes "oneLeafPerCell cs" and "\<forall>c\<in>set cs. \<not> (own c \<and> leafAt x y c)"
    and "\<not> isBlockObj v" and "cellOf v = (x, y)"
  shows "oneLeafPerCell (cs @ [v]) = (\<not> otherLeafAt own x y cs)"
proof -
  have "((x, y) \<in> cellOf ` {c \<in> set cs. \<not> isBlockObj c}) = otherLeafAt own x y cs"
  proof
    assume "(x, y) \<in> cellOf ` {c \<in> set cs. \<not> isBlockObj c}"
    then obtain c where c: "c \<in> set cs" "\<not> isBlockObj c" "cellOf c = (x, y)" by auto
    then have l: "leafAt x y c" by (simp add: leafAt_cell)
    with assms(2) c(1) have "\<not> own c" by blast
    with c(1) l show "otherLeafAt own x y cs" by (auto simp: otherLeafAt_def list_ex_iff)
  next
    assume "otherLeafAt own x y cs"
    then obtain c where c: "c \<in> set cs" "leafAt x y c"
      by (auto simp: otherLeafAt_def list_ex_iff)
    then have "\<not> isBlockObj c" "cellOf c = (x, y)" by (simp_all add: leafAt_cell)
    with c(1) show "(x, y) \<in> cellOf ` {c \<in> set cs. \<not> isBlockObj c}" by force
  qed
  with assms(1,3,4) show ?thesis by (simp add: oneLeafPerCell_def)
qed

lemma upsertWall_oneLeaf:
  assumes "oneLeafPerCell (children b)"
  shows "oneLeafPerCell (children (upsertWall b x y))
         = (\<not> otherLeafAt isWallObj x y (children b))"
proof (cases "findIndex (isWallAt x y) (children b)")
  case None
  from findIndex_None[OF None]
  have "\<forall>c\<in>set (children b). \<not> (isWallObj c \<and> leafAt x y c)" by (simp add: isWallAt_iff)
  from append_leaf[where own = isWallObj, OF assms this] show ?thesis
    unfolding upsertWall_absent[OF None] by (simp add: cellOf_def)
next
  case (Some idx)
  from findIndex_Some[OF Some] isWallAt_wall
  have i: "idx < length (children b)" "isWallObj (children b ! idx)"
    "leafAt x y (children b ! idx)" by auto
  have "oneLeafPerCell (children (upsertWall b x y))"
    using assms unfolding upsertWall_present[OF Some] oneLeafPerCell_def
    by (rule distinct_map_filter_remove)
  with own_leaf_alone[where own = isWallObj, OF assms i] show ?thesis by simp
qed

lemma upsertFloor_oneLeaf:
  assumes "oneLeafPerCell (children b)"
  shows "oneLeafPerCell (children (upsertFloor b x y t))
         = (\<not> otherLeafAt isFloorObj x y (children b))"
proof (cases "findIndex (isFloorAt x y) (children b)")
  case None
  from findIndex_None[OF None]
  have "\<forall>c\<in>set (children b). \<not> (isFloorObj c \<and> leafAt x y c)" by (simp add: isFloorAt_iff)
  from append_leaf[where own = isFloorObj, OF assms this] show ?thesis
    unfolding upsertFloor_absent[OF None] by (simp add: cellOf_def)
next
  case (Some idx)
  from findIndex_Some[OF Some] isFloorAt_floor
  have i: "idx < length (children b)" "isFloorObj (children b ! idx)"
    "leafAt x y (children b ! idx)" by auto
  have "map cellOf (filter (\<lambda>c. \<not> isBlockObj c)
             ((children b)[idx := FloorObj \<lparr>f_x = x, f_y = y, f_type = t\<rparr>]))
        = map cellOf (filter (\<lambda>c. \<not> isBlockObj c) (children b))"
    using i by (intro map_filter_update_same) (simp_all add: leafAt_def cellOf_def)
  then have "oneLeafPerCell (children (upsertFloor b x y t))"
    using assms unfolding upsertFloor_present[OF Some] oneLeafPerCell_def by simp
  with own_leaf_alone[where own = isFloorObj, OF assms i] show ?thesis by simp
qed

lemma children_hitBlock:
  "children hitBlock =
       [BlockObj (Block ((attrs (hd (roots createEmptyLevel)))
                    \<lparr>b_x := 0, b_y := 0, b_id := 1, b_width := 2, b_height := 2\<rparr>) []),
        WallObj \<lparr> w_x = 1, w_y = 1, w_player = False, w_possessable = False,
                  w_playerorder = 0 \<rparr>,
        WallObj \<lparr> w_x = 2, w_y = 2, w_player = False, w_possessable = False,
                  w_playerorder = 0 \<rparr>]"
  by (simp add: hitBlock_def)

lemma children_floorBlock:
  "children floorBlock = [FloorObj \<lparr> f_x = 0, f_y = 0, f_type = Button \<rparr>]"
  by (simp add: floorBlock_def)

lemma hitBlock_oneLeaf: "oneLeafPerCell (children hitBlock)"
  unfolding children_hitBlock oneLeafPerCell_def by (simp add: cellOf_def)

lemma floorBlock_oneLeaf: "oneLeafPerCell (children floorBlock)"
  unfolding children_floorBlock oneLeafPerCell_def by (simp add: cellOf_def)

text \<open>
  C8, as the code has it. On a children array with at most one leaf per cell,
  \<open>removeAt\<close> and \<open>addRef\<close> keep that state. \<open>upsertWall\<close> and \<open>upsertFloor\<close> search the cell
  for an object of their own kind only, so each keeps the state exactly when the cell
  holds no leaf of another kind: a Wall found in the cell is removed and a Floor found
  there is replaced in place, otherwise the new leaf is appended whatever else the cell
  holds.
\<close>

theorem cell_helpers_invariant:
  assumes "oneLeafPerCell (children b)"
  shows "oneLeafPerCell (children (removeAt b x y))
     \<and> oneLeafPerCell (children (addRef b x y i))
     \<and> oneLeafPerCell (children (upsertWall b x y))
         = (\<not> otherLeafAt isWallObj x y (children b))
     \<and> oneLeafPerCell (children (upsertFloor b x y t))
         = (\<not> otherLeafAt isFloorObj x y (children b))"
  using removeAt_oneLeaf[OF assms] addRef_oneLeaf[OF assms] upsertWall_oneLeaf[OF assms]
    upsertFloor_oneLeaf[OF assms]
  by simp

theorem cell_helpers_invariant_witness:
  "oneLeafPerCell (children hitBlock)
   \<and> oneLeafPerCell (children (removeAt hitBlock 1 1))
   \<and> oneLeafPerCell (children (addRef hitBlock 1 1 0))
   \<and> oneLeafPerCell (children (upsertWall hitBlock 1 1))
   \<and> oneLeafPerCell (children (upsertFloor hitBlock 0 5 Button))"
proof -
  have w: "\<not> otherLeafAt isWallObj 1 1 (children hitBlock)"
    unfolding children_hitBlock by (simp add: otherLeafAt_def leafAt_def)
  have f: "\<not> otherLeafAt isFloorObj 0 5 (children hitBlock)"
    unfolding children_hitBlock by (simp add: otherLeafAt_def leafAt_def)
  from cell_helpers_invariant[OF hitBlock_oneLeaf, of 1 1 0 Button] w
  have a: "oneLeafPerCell (children (removeAt hitBlock 1 1))"
    "oneLeafPerCell (children (addRef hitBlock 1 1 0))"
    "oneLeafPerCell (children (upsertWall hitBlock 1 1))" by simp_all
  from cell_helpers_invariant[OF hitBlock_oneLeaf, of 0 5 0 Button] f
  have "oneLeafPerCell (children (upsertFloor hitBlock 0 5 Button))" by simp
  with a hitBlock_oneLeaf show ?thesis by simp
qed

text \<open>
  C8 as stated fails for \<open>upsertWall\<close> and for \<open>upsertFloor\<close>. On a Block whose only
  child is a Floor at (0, 0), \<open>upsertWall\<close> at (0, 0) appends a Wall; on a Block with a
  Wall at (1, 1), \<open>upsertFloor\<close> at (1, 1) appends a Floor. Either cell then holds two
  leaves.
\<close>

theorem upsert_two_leaves:
  "oneLeafPerCell (children floorBlock)
   \<and> \<not> oneLeafPerCell (children (upsertWall floorBlock 0 0))
   \<and> oneLeafPerCell (children hitBlock)
   \<and> \<not> oneLeafPerCell (children (upsertFloor hitBlock 1 1 Button))"
proof -
  have n: "findIndex (isWallAt 0 0) (children floorBlock) = None"
    unfolding children_floorBlock by (simp add: isWallAt_def)
  have a: "\<not> oneLeafPerCell (children (upsertWall floorBlock 0 0))"
    unfolding upsertWall_absent[OF n] children_floorBlock oneLeafPerCell_def
    by (simp add: cellOf_def)
  have m: "findIndex (isFloorAt 1 1) (children hitBlock) = None"
    unfolding children_hitBlock by (simp add: isFloorAt_def)
  have b: "\<not> oneLeafPerCell (children (upsertFloor hitBlock 1 1 Button))"
    unfolding upsertFloor_absent[OF m] children_hitBlock oneLeafPerCell_def
    by (simp add: cellOf_def)
  from a b hitBlock_oneLeaf floorBlock_oneLeaf show ?thesis by simp
qed

section \<open>Properties of the text format\<close>

subsection \<open>Literals\<close>

lemma unat_chr: "unat (chr c) = of_char c"
proof -
  have lt: "(of_char c :: nat) < 256" by (rule nat_of_char_less_256)
  have "unat (chr c) = unat (word_of_nat (of_char c) :: 16 word)"
    by (simp only: chr_def of_nat_of_char)
  also have "\<dots> = of_char c mod 2 ^ 16" by (simp add: unat_of_nat)
  also have "\<dots> = of_char c" by (rule mod_less, rule less_trans[OF lt]) simp
  finally show ?thesis .
qed

lemma chr_eq_iff [simp]: "(chr a = chr b) = (a = b)"
proof
  assume "chr a = chr b"
  then have "unat (chr a) = unat (chr b)" by simp
  then show "a = b" by (simp add: unat_chr)
qed simp

lemma str_eq_iff [simp]: "(str a = str b) = (a = b)"
proof -
  have "inj chr" by (simp add: inj_def)
  then show ?thesis by (simp add: str_def inj_map_eq_map)
qed

lemma str_Nil [simp]: "str [] = []" "(str s = []) = (s = [])" "([] = str s) = (s = [])"
  by (simp_all add: str_def)

subsection \<open>Doubles\<close>

text \<open>
  \<open>floorLog2\<close> finds the binary exponent of a positive fraction, so that the fraction
  divided by that power of two lies from 1 up to 2; a fraction of \<open>2 ^ 1024\<close> or more is
  read as infinite, and so is a decimal with a positive mantissa and a large exponent.
\<close>

lemma bitLength_pos: "0 < n \<Longrightarrow> 0 < bitLength n"
proof -
  assume "0 < n"
  have "0 \<le> bitLength m" for m
    by (induction m rule: bitLength.induct) (subst bitLength.simps, simp)
  from this[of "n div 2"] \<open>0 < n\<close> show ?thesis by (subst bitLength.simps) simp
qed

lemma bitLength_bounds:
  "0 < n \<Longrightarrow> 2 ^ nat (bitLength n - 1) \<le> n \<and> n < 2 ^ nat (bitLength n)"
proof (induction n rule: bitLength.induct)
  case (1 n)
  show ?case
  proof (cases "n = 1")
    case True
    have "bitLength 1 = 1" by (simp add: bitLength.simps[of 1] bitLength.simps[of 0])
    with True show ?thesis by simp
  next
    case False
    with "1.prems" have h: "0 < n div 2" by simp
    from "1.prems" have nn: "\<not> n \<le> 0" by simp
    from "1.IH"[OF nn h] have ih: "2 ^ nat (bitLength (n div 2) - 1) \<le> n div 2"
      "n div 2 < 2 ^ nat (bitLength (n div 2))" by simp_all
    have L: "bitLength n = bitLength (n div 2) + 1" using nn by (subst bitLength.simps) simp
    from bitLength_pos[OF h] have p: "0 < bitLength (n div 2)" .
    then have e1: "nat (bitLength n - 1) = Suc (nat (bitLength (n div 2) - 1))"
      and e2: "nat (bitLength n) = Suc (nat (bitLength (n div 2)))" unfolding L by simp_all
    have "2 * (n div 2) \<le> n" "n < 2 * (n div 2) + 2" by simp_all
    with ih show ?thesis unfolding e1 e2 by simp
  qed
qed

lemma pow2_split: "a \<le> b \<Longrightarrow> (2::int) ^ b = 2 ^ a * 2 ^ (b - a)"
  by (simp add: power_add[symmetric])

lemma floorLog2_bounds:
  assumes "0 < n" "0 < d"
  shows "case scaled n d (floorLog2 n d) of (a, b) \<Rightarrow> b \<le> a \<and> a < 2 * b"
proof -
  define p where "p = nat (bitLength n)"
  define q where "q = nat (bitLength d)"
  from bitLength_pos[OF assms(1)] have Ln: "bitLength n = int p" and p1: "1 \<le> p"
    by (simp_all add: p_def)
  from bitLength_pos[OF assms(2)] have Ld: "bitLength d = int q" and q1: "1 \<le> q"
    by (simp_all add: q_def)
  from bitLength_bounds[OF assms(1)] p1 have n: "2 ^ (p - 1) \<le> n" "n < 2 ^ p"
    by (simp_all add: Ln nat_diff_distrib)
  from bitLength_bounds[OF assms(2)] q1 have d: "2 ^ (q - 1) \<le> d" "d < 2 ^ q"
    by (simp_all add: Ld nat_diff_distrib)
  have p2: "(2::int) ^ p = 2 * 2 ^ (p - 1)" using p1 by (cases p) simp_all
  have q2: "(2::int) ^ q = 2 * 2 ^ (q - 1)" using q1 by (cases q) simp_all
  show ?thesis
  proof (cases "q \<le> p")
    case True
    define j where "j = p - q"
    have k0: "bitLength n - bitLength d = int j" using True by (simp add: Ln Ld j_def)
    have pj: "(2::int) ^ p = 2 ^ q * 2 ^ j" using True by (simp add: j_def power_add[symmetric])
    have up: "n < 2 * (d * 2 ^ j)"
    proof -
      have "n < 2 ^ q * 2 ^ j" using n(2) pj by simp
      also have "\<dots> = 2 * (2 ^ (q - 1) * 2 ^ j)" by (simp add: q2)
      also have "\<dots> \<le> 2 * (d * 2 ^ j)" using d(1) by (simp add: mult_right_mono)
      finally show ?thesis .
    qed
    show ?thesis
    proof (cases "d * 2 ^ j \<le> n")
      case le: True
      then have "floorLog2 n d = int j" by (simp add: floorLog2_def k0 scaled_def Let_def)
      with le up show ?thesis by (simp add: scaled_def)
    next
      case gt: False
      then have f: "floorLog2 n d = int j - 1" by (simp add: floorLog2_def k0 scaled_def Let_def)
      show ?thesis
      proof (cases j)
        case 0
        with gt have nd: "n < d" by simp
        have "d < 2 ^ p" using d(2) pj 0 by simp
        also have "\<dots> \<le> 2 * n" using n(1) by (simp add: p2)
        finally have "d \<le> n * 2" by simp
        with nd show ?thesis by (simp add: f 0 scaled_def)
      next
        case (Suc i)
        have "d * 2 ^ i < 2 ^ q * 2 ^ i" using d(2) by (simp add: mult_strict_right_mono)
        also have "2 * \<dots> = 2 ^ p" by (simp add: pj Suc)
        finally have "2 * (d * 2 ^ i) < 2 * 2 ^ (p - 1)" by (simp add: p2)
        then have lo: "d * 2 ^ i \<le> n" using n(1) by simp
        from gt have "n < 2 * (d * 2 ^ i)" by (simp add: Suc)
        with lo show ?thesis by (simp add: f Suc scaled_def)
      qed
    qed
  next
    case False
    define j where "j = q - p"
    have j1: "1 \<le> j" using False by (simp add: j_def)
    have k0: "bitLength n - bitLength d = - int j" using False by (simp add: Ln Ld j_def)
    have neg: "\<not> 0 \<le> - int j" using j1 by simp
    have qj: "(2::int) ^ q = 2 ^ p * 2 ^ j" using False by (simp add: j_def power_add[symmetric])
    have up: "n * 2 ^ j < 2 * d"
    proof -
      have "n * 2 ^ j < 2 ^ p * 2 ^ j" using n(2) by (simp add: mult_strict_right_mono)
      also have "\<dots> = 2 * 2 ^ (q - 1)" by (simp add: qj[symmetric] q2)
      also have "\<dots> \<le> 2 * d" using d(1) by simp
      finally show ?thesis .
    qed
    show ?thesis
    proof (cases "d \<le> n * 2 ^ j")
      case le: True
      then have "floorLog2 n d = - int j" using neg by (simp add: floorLog2_def k0 scaled_def Let_def)
      with le up neg show ?thesis by (simp add: scaled_def)
    next
      case gt: False
      then have f: "floorLog2 n d = - int j - 1" using neg
        by (simp add: floorLog2_def k0 scaled_def Let_def)
      have e: "nat (- (- int j - 1)) = Suc j" by simp
      have "d < 2 ^ p * 2 ^ j" using d(2) qj by simp
      also have "\<dots> = 2 ^ (p - 1) * 2 ^ Suc j" by (simp add: p2)
      also have "\<dots> \<le> n * 2 ^ Suc j" using n(1) by (intro mult_right_mono) simp_all
      finally have lo: "d \<le> n * 2 ^ Suc j" by simp
      from gt have "n * 2 ^ Suc j < 2 * d" by simp
      with lo show ?thesis unfolding f scaled_def e by simp
    qed
  qed
qed

lemma nearestDouble_overflow:
  assumes "0 < d" "d * 2 ^ 1024 \<le> n"
  shows "nearestDouble n d = PosInfinity"
proof -
  have d1: "d * 1 \<le> d * 2 ^ 1024" using assms(1) by (intro mult_left_mono) simp_all
  with assms have n: "0 < n" by simp
  define k where "k = floorLog2 n d"
  have "1024 \<le> k"
  proof (rule ccontr)
    assume "\<not> 1024 \<le> k"
    then have k: "k \<le> 1023" by simp
    from floorLog2_bounds[OF n assms(1)]
    have b: "case scaled n d k of (a, b) \<Rightarrow> b \<le> a \<and> a < 2 * b" by (simp add: k_def)
    show False
    proof (cases "0 \<le> k")
      case True
      with b have "n < 2 * (d * 2 ^ nat k)" by (simp add: scaled_def)
      also have "\<dots> = d * 2 ^ Suc (nat k)" by simp
      also have "\<dots> \<le> d * 2 ^ 1024" using assms(1) k True
        by (intro mult_left_mono power_increasing) simp_all
      finally show False using assms(2) by simp
    next
      case False
      with b have "n * 2 ^ nat (- k) < 2 * d" by (simp add: scaled_def)
      moreover have "n * 1 \<le> n * 2 ^ nat (- k)" using n by (intro mult_left_mono) simp_all
      moreover have "d * 2 \<le> d * 2 ^ 1024" using assms(1) by (intro mult_left_mono) simp_all
      ultimately show False using assms(2) by simp
    qed
  qed
  then show ?thesis by (simp add: nearestDouble_def Let_def k_def[symmetric] max_def split: prod.split)
qed

lemma pow8_le_pow10: "(2::int) ^ (3 * k) \<le> 10 ^ k"
proof -
  have "(2::int) ^ (3 * k) = 8 ^ k" by (simp add: power_mult)
  also have "\<dots> \<le> 10 ^ k" by (rule power_mono) simp_all
  finally show ?thesis .
qed

lemma decimal_overflow:
  assumes "0 < m" "342 \<le> e"
  shows "decimal m e = PosInfinity"
proof -
  have "(2::int) ^ 1024 \<le> 2 ^ (3 * 342)" by (rule power_increasing) simp_all
  also have "\<dots> \<le> 10 ^ 342" by (rule pow8_le_pow10)
  also have "\<dots> \<le> 10 ^ nat e" using assms(2) by (intro power_increasing) simp_all
  finally have a: "(2::int) ^ 1024 \<le> 10 ^ nat e" .
  have b: "1 * (10::int) ^ nat e \<le> m * 10 ^ nat e"
    using assms(1) by (intro mult_right_mono) simp_all
  have c: "1 * (2::int) ^ 1024 \<le> m * 10 ^ nat e"
    using order_trans[OF a b[unfolded mult_1]] by (simp only: mult_1)
  have "nearestDouble (m * 10 ^ nat e) 1 = PosInfinity"
    by (rule nearestDouble_overflow[OF _ c]) simp
  moreover have "decimal m e = nearestDouble (m * 10 ^ nat e) 1"
    using assms by (simp add: decimal_def)
  ultimately show ?thesis by (simp only:)
qed

lemma decimal_1e999: "decimal 1 999 = PosInfinity"
  by (rule decimal_overflow) simp_all

subsection \<open>Boolean fields\<close>

lemma div_eq_1_iff:
  fixes m p :: int
  assumes "0 < p"
  shows "(m div p = 1) = (p \<le> m \<and> m < 2 * p)"
proof
  assume d: "m div p = 1"
  have "m = p * (m div p) + m mod p" by simp
  with d have "m = p + m mod p" by simp
  moreover have "0 \<le> m mod p" "m mod p < p" using assms by simp_all
  ultimately show "p \<le> m \<and> m < 2 * p" by linarith
next
  assume a: "p \<le> m \<and> m < 2 * p"
  then have "(m - p) div p = 0" using assms by (intro div_pos_pos_trivial) simp_all
  moreover have "m div p = (m - p + p) div p" by simp
  moreover have "(m - p + p) div p = (m - p) div p + 1"
    using assms by (subst div_add_self2) simp_all
  ultimately show "m div p = 1" by simp
qed

lemma truncInt_eq_1:
  "(truncInt m e = 1)
   = (if 0 \<le> e then m * 2 ^ nat e = 1
      else 2 ^ nat (- e) \<le> m \<and> m < 2 * 2 ^ nat (- e))"
proof (cases "0 \<le> e")
  case True
  then show ?thesis by (simp add: truncInt_def)
next
  case False
  let ?p = "(2::int) ^ nat (- e)"
  have p: "0 < ?p" by simp
  show ?thesis
  proof (cases "0 \<le> m")
    case True
    with False show ?thesis using div_eq_1_iff[OF p, of m] by (simp add: truncInt_def)
  next
    case neg: False
    then have "0 \<le> (- m) div ?p" using p by (simp add: pos_imp_zdiv_nonneg_iff)
    then have "- ((- m) div ?p) \<noteq> 1" by linarith
    moreover have "\<not> ?p \<le> m" using neg p by linarith
    ultimately show ?thesis using False neg by (simp add: truncInt_def)
  qed
qed

lemma toBool01_iff:
  "toBool01 token 0
   = (\<exists>s m e. token = Some s \<and> stringToNumber s = Finite m e
        \<and> (if 0 \<le> e then m * 2 ^ nat e = 1
            else 2 ^ nat (- e) \<le> m \<and> m < 2 * 2 ^ nat (- e)))"
proof (cases token)
  case None
  then show ?thesis by (simp add: toBool01_def toInt_def)
next
  case (Some s)
  show ?thesis
  proof (cases "stringToNumber s")
    case (Finite m e)
    with Some show ?thesis
      using truncInt_eq_1[of m e] by (simp add: toBool01_def toInt_def jsNumber_def)
  qed (simp_all add: Some toBool01_def toInt_def jsNumber_def)
qed

lemma parseObject_Block:
  "parseObject (str ''Block'') args ln = Inr (BlockObj (Block
          \<lparr> b_x = toInt (at_index args 0) 0,
            b_y = toInt (at_index args 1) 0,
            b_id = toInt (at_index args 2) 0,
            b_width = toInt (at_index args 3) 1,
            b_height = toInt (at_index args 4) 1,
            b_hue = toFloat (at_index args 5) (decimal 6 (- 1)),
            b_sat = toFloat (at_index args 6) (decimal 8 (- 1)),
            b_val = toFloat (at_index args 7) (decimal 1 0),
            b_zoomfactor = toFloat (at_index args 8) (decimal 1 0),
            b_fillwithwalls = toBool01 (at_index args 9) 0,
            b_player = toBool01 (at_index args 10) 0,
            b_possessable = toBool01 (at_index args 11) 0,
            b_playerorder = toInt (at_index args 12) 0,
            b_fliph = toBool01 (at_index args 13) 0,
            b_floatinspace = toBool01 (at_index args 14) 0,
            b_specialeffect = toInt (at_index args 15) 0 \<rparr> []))"
  unfolding parseObject_def by simp

lemma parseObject_Ref:
  "parseObject (str ''Ref'') args ln = Inr (RefObj
          \<lparr> r_x = toInt (at_index args 0) 0,
            r_y = toInt (at_index args 1) 0,
            r_id = toInt (at_index args 2) 0,
            r_exitblock = toBool01 (at_index args 3) 0,
            r_infexit = toBool01 (at_index args 4) 0,
            r_infexitnum = toInt (at_index args 5) 0,
            r_infenter = toBool01 (at_index args 6) 0,
            r_infenternum = toInt (at_index args 7) 0,
            r_infenterid = toInt (at_index args 8) (- 1),
            r_player = toBool01 (at_index args 9) 0,
            r_possessable = toBool01 (at_index args 10) 0,
            r_playerorder = toInt (at_index args 11) 0,
            r_fliph = toBool01 (at_index args 12) 0,
            r_floatinspace = toBool01 (at_index args 13) 0,
            r_specialeffect = toInt (at_index args 14) 0 \<rparr>)"
  unfolding parseObject_def by simp

lemma parseObject_Wall:
  "parseObject (str ''Wall'') args ln = Inr (WallObj
          \<lparr> w_x = toInt (at_index args 0) 0,
            w_y = toInt (at_index args 1) 0,
            w_player = toBool01 (at_index args 2) 0,
            w_possessable = toBool01 (at_index args 3) 0,
            w_playerorder = toInt (at_index args 4) 0 \<rparr>)"
  unfolding parseObject_def by simp

lemma parseObject_Floor:
  "parseObject (str ''Floor'') args ln = Inr (FloorObj
          \<lparr> f_x = toInt (at_index args 0) 0, f_y = toInt (at_index args 1) 0,
            f_type = parseFloorType (joinSp (drop 2 args)) \<rparr>)"
  unfolding parseObject_def by (simp add: Let_def)

text \<open>
  C7, as the code has it. A boolean field is read with \<open>toBool01\<close>, which is true
  exactly when the token is present and \<open>Number\<close> reads it as a finite number whose
  truncation towards zero is 1, that is a double from 1 up to but not including 2. A
  missing token, a token that is not a number and any other number give false. The
  fields of Block, Ref and Wall that are read this way are listed with their positions.
\<close>

theorem boolean_field_parsing:
  "toBool01 token 0
     = (\<exists>s m e. token = Some s \<and> stringToNumber s = Finite m e
          \<and> (if 0 \<le> e then m * 2 ^ nat e = 1
              else 2 ^ nat (- e) \<le> m \<and> m < 2 * 2 ^ nat (- e)))
   \<and> (\<exists>f. parseObject (str ''Block'') args ln = Inr (BlockObj (Block f []))
          \<and> b_fillwithwalls f = toBool01 (at_index args 9) 0
          \<and> b_player f = toBool01 (at_index args 10) 0
          \<and> b_possessable f = toBool01 (at_index args 11) 0
          \<and> b_fliph f = toBool01 (at_index args 13) 0
          \<and> b_floatinspace f = toBool01 (at_index args 14) 0)
   \<and> (\<exists>r. parseObject (str ''Ref'') args ln = Inr (RefObj r)
          \<and> r_exitblock r = toBool01 (at_index args 3) 0
          \<and> r_infexit r = toBool01 (at_index args 4) 0
          \<and> r_infenter r = toBool01 (at_index args 6) 0
          \<and> r_player r = toBool01 (at_index args 9) 0
          \<and> r_possessable r = toBool01 (at_index args 10) 0
          \<and> r_fliph r = toBool01 (at_index args 12) 0
          \<and> r_floatinspace r = toBool01 (at_index args 13) 0)
   \<and> (\<exists>w. parseObject (str ''Wall'') args ln = Inr (WallObj w)
          \<and> w_player w = toBool01 (at_index args 2) 0
          \<and> w_possessable w = toBool01 (at_index args 3) 0)"
proof (intro conjI)
  show "toBool01 token 0
     = (\<exists>s m e. token = Some s \<and> stringToNumber s = Finite m e
          \<and> (if 0 \<le> e then m * 2 ^ nat e = 1
              else 2 ^ nat (- e) \<le> m \<and> m < 2 * 2 ^ nat (- e)))"
    by (rule toBool01_iff)
next
  show "\<exists>f. parseObject (str ''Block'') args ln = Inr (BlockObj (Block f []))
          \<and> b_fillwithwalls f = toBool01 (at_index args 9) 0
          \<and> b_player f = toBool01 (at_index args 10) 0
          \<and> b_possessable f = toBool01 (at_index args 11) 0
          \<and> b_fliph f = toBool01 (at_index args 13) 0
          \<and> b_floatinspace f = toBool01 (at_index args 14) 0"
    unfolding parseObject_Block by (intro exI conjI, rule refl) simp_all
next
  show "\<exists>r. parseObject (str ''Ref'') args ln = Inr (RefObj r)
          \<and> r_exitblock r = toBool01 (at_index args 3) 0
          \<and> r_infexit r = toBool01 (at_index args 4) 0
          \<and> r_infenter r = toBool01 (at_index args 6) 0
          \<and> r_player r = toBool01 (at_index args 9) 0
          \<and> r_possessable r = toBool01 (at_index args 10) 0
          \<and> r_fliph r = toBool01 (at_index args 12) 0
          \<and> r_floatinspace r = toBool01 (at_index args 13) 0"
    unfolding parseObject_Ref by (intro exI conjI, rule refl) simp_all
next
  show "\<exists>w. parseObject (str ''Wall'') args ln = Inr (WallObj w)
          \<and> w_player w = toBool01 (at_index args 2) 0
          \<and> w_possessable w = toBool01 (at_index args 3) 0"
    unfolding parseObject_Wall by (intro exI conjI, rule refl) simp_all
qed

text \<open>
  Tokens and the doubles they read as. The value of the fourth is below 1 and the
  double nearest to it is 1; the value of the fifth is below 2 and the double nearest to
  it is 2.
\<close>

lemma stn_1: "stringToNumber (str ''1'') = Finite 1 0" by code_simp
lemma stn_19: "stringToNumber (str ''1.9'') = Finite 4278419646001971 (- 51)" by code_simp
lemma stn_2: "stringToNumber (str ''2'') = Finite 1 1" by code_simp
lemma stn_below_1: "stringToNumber (str ''0.99999999999999999999'') = Finite 1 0" by code_simp
lemma stn_below_2: "stringToNumber (str ''1.99999999999999999999'') = Finite 1 1" by code_simp
lemma stn_x: "stringToNumber (str ''x'') = NaN" by code_simp

theorem boolean_field_parsing_witness:
  "toBool01 (Some (str ''1'')) 0 \<and> toBool01 (Some (str ''1.9'')) 0
   \<and> \<not> toBool01 (Some (str ''2'')) 0
   \<and> toBool01 (Some (str ''0.99999999999999999999'')) 0
   \<and> \<not> toBool01 (Some (str ''1.99999999999999999999'')) 0
   \<and> \<not> toBool01 (Some (str ''x'')) 0 \<and> \<not> toBool01 None 0"
proof -
  have a: "toBool01 (Some (str ''1'')) 0"
    using boolean_field_parsing[of "Some (str ''1'')"] stn_1 by simp
  have b: "toBool01 (Some (str ''1.9'')) 0"
    using boolean_field_parsing[of "Some (str ''1.9'')"] stn_19 by simp
  have c: "\<not> toBool01 (Some (str ''2'')) 0"
    using boolean_field_parsing[of "Some (str ''2'')"] stn_2 by simp
  have d: "toBool01 (Some (str ''0.99999999999999999999'')) 0"
    using boolean_field_parsing[of "Some (str ''0.99999999999999999999'')"] stn_below_1
    by simp
  have e: "\<not> toBool01 (Some (str ''1.99999999999999999999'')) 0"
    using boolean_field_parsing[of "Some (str ''1.99999999999999999999'')"] stn_below_2
    by simp
  have f: "\<not> toBool01 (Some (str ''x'')) 0"
    using boolean_field_parsing[of "Some (str ''x'')"] stn_x by simp
  have g: "\<not> toBool01 None 0"
    using boolean_field_parsing[of None] by simp
  from a b c d e f g show ?thesis by simp
qed

text \<open>
  C7 as stated fails: the tokens \<open>01\<close> and \<open>1.0\<close> are not the literal \<open>1\<close>, and both
  set their field.
\<close>

theorem boolean_field_not_literal:
  "str ''01'' \<noteq> str ''1'' \<and> str ''1.0'' \<noteq> str ''1''
   \<and> parseObject (str ''Wall'') [str ''0'', str ''0'', str ''01'', str ''1.0''] 1
       = Inr (WallObj \<lparr> w_x = 0, w_y = 0, w_player = True, w_possessable = True,
                         w_playerorder = 0 \<rparr>)"
  by code_simp

subsection \<open>The header loop\<close>

lemma headerLine_version:
  "hd (splitWs (trim l)) = str ''version'' \<Longrightarrow>
   headerLine l i h =
     (case jsNumber (at_index (splitWs (trim l)) 1) of
        Finite m e \<Rightarrow> Inr (h\<lparr>version := truncInt m e\<rparr>)
      | _ \<Rightarrow> Inl (ParseError (str ''Invalid version'') (i + 1)))"
  unfolding headerLine_def Let_def by simp

lemma headerLine_other:
  "hd (splitWs (trim l)) \<noteq> str ''version'' \<Longrightarrow> \<exists>h'. headerLine l i h = Inr h'"
  unfolding headerLine_def Let_def by simp

lemma headerLine_Inl:
  "(headerLine l i h = Inl err)
   = (hd (splitWs (trim l)) = str ''version''
      \<and> \<not> isFinite (jsNumber (at_index (splitWs (trim l)) 1))
      \<and> err = ParseError (str ''Invalid version'') (i + 1))"
proof (cases "hd (splitWs (trim l)) = str ''version''")
  case True
  show ?thesis unfolding headerLine_version[OF True]
    by (cases "jsNumber (at_index (splitWs (trim l)) 1)") (auto simp: isFinite_def True)
next
  case False
  from headerLine_other[OF False] obtain h' where "headerLine l i h = Inr h'" by blast
  with False show ?thesis by simp
qed

lemma headerLine_unknown:
  assumes "headerLine l i h = Inr h'"
  shows "unknown h' = unknown h @ (if keptAsUnknown l then [l] else [])"
proof -
  let ?k = "hd (splitWs (trim l))"
  let ?t = "at_index (splitWs (trim l)) 1"
  consider (v) "?k = str ''version''" | (a) "?k = str ''attempt_order''" | (s) "?k = str ''shed''"
    | (p) "?k = str ''inner_push''" | (d) "?k = str ''draw_style''" | (m) "?k = str ''custom_level_music''"
    | (c) "?k = str ''custom_level_palette''"
    | (u) "?k \<noteq> str ''version''" "?k \<noteq> str ''attempt_order''" "?k \<noteq> str ''shed''" "?k \<noteq> str ''inner_push''"
          "?k \<noteq> str ''draw_style''" "?k \<noteq> str ''custom_level_music''" "?k \<noteq> str ''custom_level_palette''"
    by blast
  then show ?thesis
  proof cases
    case v
    have k: "\<not> keptAsUnknown l" unfolding keptAsUnknown_def Let_def v by simp
    from assms k show ?thesis unfolding headerLine_version[OF v]
      by (cases "jsNumber ?t") auto
  next
    case a
    have k: "\<not> keptAsUnknown l" unfolding keptAsUnknown_def Let_def a by simp
    from assms k show ?thesis unfolding headerLine_def Let_def a by auto
  next
    case s
    have k: "\<not> keptAsUnknown l" unfolding keptAsUnknown_def Let_def s by simp
    from assms k show ?thesis unfolding headerLine_def Let_def s by auto
  next
    case p
    have k: "\<not> keptAsUnknown l" unfolding keptAsUnknown_def Let_def p by simp
    from assms k show ?thesis unfolding headerLine_def Let_def p by auto
  next
    case d
    have k: "keptAsUnknown l = (?t \<noteq> Some (str ''tui'') \<and> ?t \<noteq> Some (str ''grid'') \<and> ?t \<noteq> Some (str ''oldstyle''))"
      unfolding keptAsUnknown_def Let_def d by simp
    from assms show ?thesis unfolding headerLine_def Let_def d k
      by (auto split: if_splits)
  next
    case m
    have k: "\<not> keptAsUnknown l" unfolding keptAsUnknown_def Let_def m by simp
    from assms k show ?thesis unfolding headerLine_def Let_def m by auto
  next
    case c
    have k: "\<not> keptAsUnknown l" unfolding keptAsUnknown_def Let_def c by simp
    from assms k show ?thesis unfolding headerLine_def Let_def c by auto
  next
    case u
    have k: "keptAsUnknown l" unfolding keptAsUnknown_def Let_def using u by simp
    from assms u k show ?thesis unfolding headerLine_def Let_def by auto
  qed
qed

lemma headerLoop_unknown:
  "headerLoop ls i h = Inr (h', rest, j) \<Longrightarrow>
   unknown h' = unknown h
     @ filter (\<lambda>l. trim l \<noteq> [] \<and> keptAsUnknown l) (takeWhile (\<lambda>l. trim l \<noteq> str ''#'') ls)"
proof (induction ls arbitrary: i h)
  case Nil
  then show ?case by simp
next
  case (Cons l ls)
  show ?case
  proof (cases "trim l = []")
    case True
    with Cons.prems have "headerLoop ls (i + 1) h = Inr (h', rest, j)" by simp
    from Cons.IH[OF this] True show ?thesis by simp
  next
    case ne: False
    show ?thesis
    proof (cases "trim l = str ''#''")
      case True
      with Cons.prems show ?thesis by simp
    next
      case False
      with ne Cons.prems obtain h1 where h1: "headerLine l i h = Inr h1"
        "headerLoop ls (i + 1) h1 = Inr (h', rest, j)"
        by (auto split: sum.splits)
      from Cons.IH[OF h1(2)] headerLine_unknown[OF h1(1)] ne False show ?thesis by simp
    qed
  qed
qed

lemma headerLoop_rest:
  "headerLoop ls i h = Inr (h', rest, j) \<Longrightarrow>
   \<exists>n. n \<le> length ls \<and> rest = drop n ls \<and> j = i + n"
proof (induction ls arbitrary: i h)
  case Nil
  then show ?case by simp
next
  case (Cons l ls)
  show ?case
  proof (cases "trim l = []")
    case True
    with Cons.prems have "headerLoop ls (i + 1) h = Inr (h', rest, j)" by simp
    from Cons.IH[OF this] obtain n where "n \<le> length ls" "rest = drop n ls" "j = i + 1 + n"
      by blast
    then show ?thesis by (intro exI[of _ "Suc n"]) simp
  next
    case ne: False
    show ?thesis
    proof (cases "trim l = str ''#''")
      case True
      with Cons.prems have "rest = ls" "j = i + 1" by simp_all
      then show ?thesis by (intro exI[of _ "Suc 0"]) simp
    next
      case False
      with ne Cons.prems obtain h1 where "headerLoop ls (i + 1) h1 = Inr (h', rest, j)"
        by (auto split: sum.splits)
      from Cons.IH[OF this] obtain n where "n \<le> length ls" "rest = drop n ls" "j = i + 1 + n"
        by blast
      then show ?thesis by (intro exI[of _ "Suc n"]) simp
    qed
  qed
qed

lemma invalidVersionLine_iff:
  "trim l \<noteq> [] \<Longrightarrow> invalidVersionLine l = (\<exists>err. headerLine l i h = Inl err)"
  by (auto simp: invalidVersionLine_def headerLine_Inl)

lemma headerLoop_no_terminator:
  "\<not> hasTerminator ls \<Longrightarrow> list_all (\<lambda>l. \<not> invalidVersionLine l) ls \<Longrightarrow>
   \<exists>h'. headerLoop ls i h = Inr (h', [], i + length ls)"
proof (induction ls arbitrary: i h)
  case Nil
  then show ?case by simp
next
  case (Cons l ls)
  from Cons.prems have nt: "trim l \<noteq> str ''#''" "\<not> hasTerminator ls"
    and nv: "\<not> invalidVersionLine l" "list_all (\<lambda>l. \<not> invalidVersionLine l) ls"
    by (simp_all add: hasTerminator_def)
  show ?case
  proof (cases "trim l = []")
    case True
    from Cons.IH[OF nt(2) nv(2), of "i + 1" h] True show ?thesis by simp
  next
    case False
    with nv(1) invalidVersionLine_iff[OF False, of i h]
    obtain h1 where h1: "headerLine l i h = Inr h1" by (cases "headerLine l i h") auto
    from Cons.IH[OF nt(2) nv(2), of "i + 1" h1] False nt(1) h1 show ?thesis by simp
  qed
qed

lemma trim_hash_tokens: "trim l = str ''#'' \<Longrightarrow> hd (splitWs (trim l)) = str ''#''"
  by (simp add: str_def chr_def isSpace_def isLineTerminator_def)

lemma headerLoop_invalid_version:
  "list_all (\<lambda>p. trim p \<noteq> str ''#'' \<and> \<not> invalidVersionLine p) pre \<Longrightarrow> invalidVersionLine l \<Longrightarrow>
   headerLoop (pre @ l # post) i h = Inl (ParseError (str ''Invalid version'') (i + length pre + 1))"
proof (induction pre arbitrary: i h)
  case Nil
  from Nil.prems(2) have ne: "trim l \<noteq> []" and v: "hd (splitWs (trim l)) = str ''version''"
    and nf: "\<not> isFinite (jsNumber (at_index (splitWs (trim l)) 1))"
    by (simp_all add: invalidVersionLine_def)
  have nh: "trim l \<noteq> str ''#''" using trim_hash_tokens[of l] v by auto
  have "headerLine l i h = Inl (ParseError (str ''Invalid version'') (i + 1))"
    using headerLine_Inl[of l i h] v nf by simp
  with ne nh show ?case by simp
next
  case (Cons p pre)
  from Cons.prems have nt: "trim p \<noteq> str ''#''" and nv: "\<not> invalidVersionLine p"
    and r: "list_all (\<lambda>p. trim p \<noteq> str ''#'' \<and> \<not> invalidVersionLine p) pre" by simp_all
  show ?case
  proof (cases "trim p = []")
    case True
    from Cons.IH[OF r Cons.prems(2), of "i + 1" h] True show ?thesis by simp
  next
    case False
    with nv invalidVersionLine_iff[OF False, of i h]
    obtain h1 where h1: "headerLine p i h = Inr h1" by (cases "headerLine p i h") auto
    from Cons.IH[OF r Cons.prems(2), of "i + 1" h1] False nt h1 show ?thesis by simp
  qed
qed

lemma textLines_nonempty: "textLines txt \<noteq> []"
proof -
  have "\<And>s. splitNL s \<noteq> []"
  proof -
    fix s show "splitNL s \<noteq> []" by (induction s) (auto split: list.splits)
  qed
  then show ?thesis by (simp add: textLines_def Let_def)
qed

text \<open>
  C5. The text \<open>noVersionText\<close> has no version line in its header section, and
  \<open>parseLevel\<close> returns a Level for it, with the version 4 that the header starts with:
  the check behind the message \<open>Missing version header\<close> never fails.
\<close>

theorem missing_version_accepted:
  "list_all (\<lambda>l. hd (splitWs (trim l)) \<noteq> str ''version'')
     (takeWhile (\<lambda>l. trim l \<noteq> str ''#'') (textLines noVersionText))
   \<and> parseLevel noVersionText
       = Inr \<lparr> header = initialHeader,
               roots = [Block \<lparr> b_x = 0, b_y = 0, b_id = 0, b_width = 1, b_height = 1,
                        b_hue = decimal 6 (- 1), b_sat = decimal 8 (- 1), b_val = decimal 1 0,
                        b_zoomfactor = decimal 1 0, b_fillwithwalls = False,
                        b_player = False, b_possessable = False, b_playerorder = 0,
                        b_fliph = False, b_floatinspace = False, b_specialeffect = 0 \<rparr> []] \<rparr>
   \<and> version initialHeader = 4"
  by code_simp

lemma parseLevel_header:
  assumes "parseLevel txt = Inr lv"
  shows "\<exists>rest j. headerLoop (textLines txt) 0 initialHeader = Inr (header lv, rest, j)"
proof (cases "headerLoop (textLines txt) 0 initialHeader")
  case (Inl e)
  with assms show ?thesis by (simp add: parseLevel_def Let_def)
next
  case (Inr r)
  obtain h rest j where r: "r = (h, rest, j)" by (cases r) auto
  from assms Inr r have "header lv = h"
    by (auto simp: parseLevel_def Let_def split: if_splits sum.splits prod.splits)
  with Inr r show ?thesis by simp
qed

text \<open>
  C6, as the code has it. The \<open>unknown\<close> list of a parsed Level holds, in their order,
  the lines of the header section that are not blank and are either a \<open>draw_style\<close> line
  with a value other than the three styles or a line with no recognised key; each line
  is kept as it reads once trailing spaces and tabs are removed. A
  \<open>custom_level_music\<close> or \<open>custom_level_palette\<close> line whose value is not a finite
  number is not kept: the field is set to -1.
\<close>

theorem header_unknown_lines:
  "(parseLevel txt = Inr lv \<longrightarrow>
      unknown (header lv)
      = filter (\<lambda>l. trim l \<noteq> [] \<and> keptAsUnknown l)
          (takeWhile (\<lambda>l. trim l \<noteq> str ''#'') (textLines txt)))
   \<and> (hd (splitWs (trim l)) = str ''custom_level_music''
        \<and> \<not> isFinite (jsNumber (at_index (splitWs (trim l)) 1)) \<longrightarrow>
      headerLine l i h = Inr (h\<lparr>custom_level_music := Some (- 1)\<rparr>))
   \<and> (hd (splitWs (trim l)) = str ''custom_level_palette''
        \<and> \<not> isFinite (jsNumber (at_index (splitWs (trim l)) 1)) \<longrightarrow>
      headerLine l i h = Inr (h\<lparr>custom_level_palette := Some (- 1)\<rparr>))"
proof (intro conjI impI)
  assume p: "parseLevel txt = Inr lv"
  from parseLevel_header[OF p] obtain rest j where
    "headerLoop (textLines txt) 0 initialHeader = Inr (header lv, rest, j)" by blast
  from headerLoop_unknown[OF this]
  show "unknown (header lv)
      = filter (\<lambda>l. trim l \<noteq> [] \<and> keptAsUnknown l)
          (takeWhile (\<lambda>l. trim l \<noteq> str ''#'') (textLines txt))"
    by (simp add: initialHeader_def)
next
  assume a: "hd (splitWs (trim l)) = str ''custom_level_music''
        \<and> \<not> isFinite (jsNumber (at_index (splitWs (trim l)) 1))"
  then have "toInt (at_index (splitWs (trim l)) 1) (- 1) = - 1"
    by (cases "at_index (splitWs (trim l)) 1"; cases "jsNumber (at_index (splitWs (trim l)) 1)")
       (auto simp: toInt_def isFinite_def)
  with a show "headerLine l i h = Inr (h\<lparr>custom_level_music := Some (- 1)\<rparr>)"
    unfolding headerLine_def Let_def by simp
next
  assume a: "hd (splitWs (trim l)) = str ''custom_level_palette''
        \<and> \<not> isFinite (jsNumber (at_index (splitWs (trim l)) 1))"
  then have "toInt (at_index (splitWs (trim l)) 1) (- 1) = - 1"
    by (cases "at_index (splitWs (trim l)) 1"; cases "jsNumber (at_index (splitWs (trim l)) 1)")
       (auto simp: toInt_def isFinite_def)
  with a show "headerLine l i h = Inr (h\<lparr>custom_level_palette := Some (- 1)\<rparr>)"
    unfolding headerLine_def Let_def by simp
qed

lemma musicText_parses:
  "(case parseLevel musicText of Inl e \<Rightarrow> False | Inr lv \<Rightarrow> True)"
  by code_simp

lemma musicText_kept:
  "filter (\<lambda>l. trim l \<noteq> [] \<and> keptAsUnknown l)
     (takeWhile (\<lambda>l. trim l \<noteq> str ''#'') (textLines musicText))
   = [(str ''draw_style foo''), (str '' zzz 1'')]"
  by code_simp

lemma music_line_facts:
  "hd (splitWs (trim (str ''custom_level_music abc''))) = str ''custom_level_music''
   \<and> \<not> isFinite (jsNumber (at_index (splitWs (trim (str ''custom_level_music abc''))) 1))"
  by code_simp

theorem header_unknown_lines_witness:
  "(\<exists>lv. parseLevel musicText = Inr lv
        \<and> unknown (header lv) = [(str ''draw_style foo''), (str '' zzz 1'')])
   \<and> headerLine (str ''custom_level_music abc'') 0 initialHeader
       = Inr (initialHeader\<lparr>custom_level_music := Some (- 1)\<rparr>)"
proof -
  from musicText_parses obtain lv where lv: "parseLevel musicText = Inr lv"
    by (cases "parseLevel musicText") auto
  from header_unknown_lines[of musicText lv "(str ''custom_level_music abc'')" 0 initialHeader]
    lv musicText_kept music_line_facts
  show ?thesis by auto
qed

text \<open>
  C6 as stated fails: \<open>abc\<close> is not a number, and the line \<open>custom_level_music abc\<close> sets the
  field to -1 and leaves the \<open>unknown\<close> list empty.
\<close>

theorem music_line_not_kept:
  "stringToNumber (str ''abc'') = NaN
   \<and> headerLoop [(str ''custom_level_music abc''), (str ''#'')] 0 initialHeader
       = Inr (initialHeader\<lparr>custom_level_music := Some (- 1)\<rparr>, [], 2)
   \<and> unknown (initialHeader\<lparr>custom_level_music := Some (- 1)\<rparr>) = []"
  by code_simp

lemma parseLevel_no_body:
  assumes "headerLoop (textLines txt) 0 initialHeader = Inr (h', [], j)"
  shows "parseLevel txt = Inl (ParseError (str ''No root Block found'') (length (textLines txt)))"
  using assms by (simp add: parseLevel_def Let_def isFinite_def)

lemma parseLevel_header_error:
  assumes "headerLoop (textLines txt) 0 initialHeader = Inl err"
  shows "parseLevel txt = Inl err"
  using assms by (simp add: parseLevel_def Let_def)

lemma hasTerminator_append:
  "hasTerminator (xs @ ys) = (hasTerminator xs \<or> hasTerminator ys)"
  by (simp add: hasTerminator_def)

lemma no_terminator_all:
  "\<not> hasTerminator xs \<Longrightarrow> list_all (\<lambda>p. \<not> invalidVersionLine p) xs \<Longrightarrow>
   list_all (\<lambda>p. trim p \<noteq> str ''#'' \<and> \<not> invalidVersionLine p) xs"
  by (induction xs) (auto simp: hasTerminator_def)

text \<open>
  C10, as the code has it. For a text with no terminator line \<open>parseLevel\<close> never
  returns a Level. If no version line is invalid (its second token missing, or read by
  \<open>Number\<close> as \<open>NaN\<close> or an infinity), the header loop consumes every line and the error
  is \<open>No root Block found\<close> with the number of lines; otherwise the error is
  \<open>Invalid version\<close> with the number of the first invalid version line.
\<close>

theorem no_terminator_never_parses:
  assumes "\<not> hasTerminator (textLines txt)"
  shows "(\<exists>err. parseLevel txt = Inl err)
   \<and> (list_all (\<lambda>l. \<not> invalidVersionLine l) (textLines txt) \<longrightarrow>
        (\<exists>h'. headerLoop (textLines txt) 0 initialHeader
                 = Inr (h', [], length (textLines txt)))
        \<and> parseLevel txt
            = Inl (ParseError (str ''No root Block found'') (length (textLines txt))))
   \<and> (\<forall>pre l post.
        textLines txt = pre @ l # post \<and> list_all (\<lambda>p. \<not> invalidVersionLine p) pre
        \<and> invalidVersionLine l \<longrightarrow>
        parseLevel txt = Inl (ParseError (str ''Invalid version'') (length pre + 1)))"
proof -
  have good: "list_all (\<lambda>l. \<not> invalidVersionLine l) (textLines txt) \<Longrightarrow>
        (\<exists>h'. headerLoop (textLines txt) 0 initialHeader
                 = Inr (h', [], length (textLines txt)))
        \<and> parseLevel txt
            = Inl (ParseError (str ''No root Block found'') (length (textLines txt)))"
  proof -
    assume a: "list_all (\<lambda>l. \<not> invalidVersionLine l) (textLines txt)"
    from headerLoop_no_terminator[OF assms a, of 0 initialHeader] obtain h' where
      h: "headerLoop (textLines txt) 0 initialHeader = Inr (h', [], length (textLines txt))"
      by auto
    from parseLevel_no_body[OF h] h show ?thesis by blast
  qed
  have bad: "\<And>pre l post. textLines txt = pre @ l # post \<Longrightarrow>
        list_all (\<lambda>p. \<not> invalidVersionLine p) pre \<Longrightarrow> invalidVersionLine l \<Longrightarrow>
        parseLevel txt = Inl (ParseError (str ''Invalid version'') (length pre + 1))"
  proof -
    fix pre l post
    assume e: "textLines txt = pre @ l # post"
      and p: "list_all (\<lambda>p. \<not> invalidVersionLine p) pre" and l: "invalidVersionLine l"
    from assms e have "\<not> hasTerminator pre" by (simp add: hasTerminator_append)
    from headerLoop_invalid_version[OF no_terminator_all[OF this p] l, of post 0 initialHeader]
    have "headerLoop (textLines txt) 0 initialHeader
          = Inl (ParseError (str ''Invalid version'') (length pre + 1))" by (simp add: e)
    then show "parseLevel txt = Inl (ParseError (str ''Invalid version'') (length pre + 1))"
      by (rule parseLevel_header_error)
  qed
  have ex: "\<exists>err. parseLevel txt = Inl err"
  proof (cases "list_all (\<lambda>l. \<not> invalidVersionLine l) (textLines txt)")
    case True
    from good[OF True] show ?thesis by blast
  next
    case False
    then have "\<exists>x\<in>set (textLines txt). invalidVersionLine x" by (simp add: list_all_iff)
    from split_list_first_prop[OF this] obtain pre l post where
      s: "textLines txt = pre @ l # post" "invalidVersionLine l"
      "\<forall>y\<in>set pre. \<not> invalidVersionLine y" by blast
    from s(3) have "list_all (\<lambda>p. \<not> invalidVersionLine p) pre" by (simp add: list_all_iff)
    from bad[OF s(1) this s(2)] show ?thesis by blast
  qed
  from ex good bad show ?thesis by blast
qed

lemma foo_facts:
  "\<not> hasTerminator (textLines (str ''foo''))
   \<and> list_all (\<lambda>l. \<not> invalidVersionLine l) (textLines (str ''foo''))
   \<and> length (textLines (str ''foo'')) = 1"
  by code_simp

lemma lateVersion_facts:
  "\<not> hasTerminator (textLines lateVersionText)
   \<and> textLines lateVersionText = [str ''shed''] @ str ''version'' # []
   \<and> list_all (\<lambda>p. \<not> invalidVersionLine p) [str ''shed'']
   \<and> invalidVersionLine (str ''version'')"
  by code_simp

text \<open>The token \<open>1e999\<close> is a numeric literal, and the double nearest to its value is infinite.\<close>

lemma stn_overflow: "stringToNumber (str ''1e999'') = PosInfinity"
proof -
  have "literalValue (str ''1e999'') = DecimalValue 1 999" by code_simp
  then show ?thesis by (simp add: stringToNumber_def decimal_overflow)
qed

lemma overflow_facts:
  "\<not> hasTerminator (textLines overflowText)
   \<and> textLines overflowText = [] @ overflowText # []
   \<and> invalidVersionLine overflowText"
proof -
  have a: "\<not> hasTerminator (textLines overflowText)
     \<and> textLines overflowText = [] @ overflowText # []" by code_simp
  have b: "trim overflowText \<noteq> [] \<and> hd (splitWs (trim overflowText)) = str ''version''
     \<and> at_index (splitWs (trim overflowText)) 1 = Some (str ''1e999'')" by code_simp
  from b stn_overflow have "invalidVersionLine overflowText"
    by (simp add: invalidVersionLine_def jsNumber_def isFinite_def)
  with a show ?thesis by blast
qed

theorem no_terminator_never_parses_witness:
  "parseLevel (str ''foo'') = Inl (ParseError (str ''No root Block found'') 1)
   \<and> parseLevel lateVersionText = Inl (ParseError (str ''Invalid version'') 2)
   \<and> parseLevel overflowText = Inl (ParseError (str ''Invalid version'') 1)"
proof -
  from foo_facts have f: "\<not> hasTerminator (textLines (str ''foo''))" by blast
  from no_terminator_never_parses[OF f] foo_facts
  have a: "parseLevel (str ''foo'') = Inl (ParseError (str ''No root Block found'') 1)" by simp
  from lateVersion_facts have l: "\<not> hasTerminator (textLines lateVersionText)" by blast
  from no_terminator_never_parses[OF l] lateVersion_facts
  have b: "parseLevel lateVersionText
           = Inl (ParseError (str ''Invalid version'') (length [str ''shed''] + 1))"
    by blast
  from overflow_facts have v: "\<not> hasTerminator (textLines overflowText)" by blast
  from no_terminator_never_parses[OF v]
  have r: "textLines overflowText = [] @ overflowText # []
        \<and> list_all (\<lambda>p. \<not> invalidVersionLine p) [] \<and> invalidVersionLine overflowText \<longrightarrow>
      parseLevel overflowText
        = Inl (ParseError (str ''Invalid version'') (length ([] :: jstring list) + 1))"
    by blast
  have "list_all (\<lambda>p. \<not> invalidVersionLine p) []" by simp
  with r overflow_facts
  have c: "parseLevel overflowText
           = Inl (ParseError (str ''Invalid version'') (length ([] :: jstring list) + 1))"
    by blast
  from a b c show ?thesis by simp
qed

text \<open>
  C10 as stated fails: the text \<open>version x\<close> has no terminator line and the error is
  \<open>Invalid version\<close>, not \<open>No root Block found\<close>.
\<close>

theorem no_terminator_other_error:
  "\<not> hasTerminator (textLines (str ''version x''))
   \<and> parseLevel (str ''version x'') = Inl (ParseError (str ''Invalid version'') 1)
   \<and> str ''Invalid version'' \<noteq> str ''No root Block found''"
  by code_simp

subsection \<open>Indentation\<close>

lemma dropWhile_space_tabs:
  "dropWhile isSpace (dropWhile (\<lambda>c. c = 0x09) s) = dropWhile isSpace s"
  by (induction s) (auto simp: isSpace_def)

lemma trim_drop_tabs: "trim (dropWhile (\<lambda>c. c = 0x09) s) = trim s"
  by (simp add: trim_def trimStart_def dropWhile_space_tabs)

lemma bodyLine_bad_indent:
  assumes "trim raw \<noteq> []" and "\<not> list_ex isLineTerminator raw"
    and "min stackLen (length (takeWhile (\<lambda>c. c = 0x09) raw))
           < length (takeWhile (\<lambda>c. c = 0x09) raw)"
  shows "bodyLine raw i (rs, stackLen)
         = Inl (ParseError (str ''Invalid indentation (no parent block at that depth)'') (i + 1))"
proof -
  from assms(3) have "stackLen < length (takeWhile (\<lambda>c. c = 0x09) raw)"
    by (simp add: min_def split: if_splits)
  with assms(1,2) show ?thesis
    unfolding bodyLine_def matchLine_def Let_def by (simp add: trim_drop_tabs)
qed

lemma bodyLine_no_match:
  "list_ex isLineTerminator raw \<Longrightarrow> bodyLine raw i st = Inr st"
  unfolding bodyLine_def matchLine_def by simp

lemma bodyLoop_append:
  "bodyLoop (xs @ ys) i st
   = (case bodyLoop xs i st of Inl err \<Rightarrow> Inl err | Inr st' \<Rightarrow> bodyLoop ys (i + length xs) st')"
  by (induction xs arbitrary: i st) (auto split: sum.splits)

text \<open>
  C9, as the code has it. Let the header loop end with the body lines starting at index
  \<open>i0\<close>, and let the body loop have read the lines \<open>before\<close> without an error, leaving a
  stack of length \<open>stackLen\<close>. If the next line \<open>raw\<close> is not blank, holds no line
  terminator (so that the line pattern matches it) and has more leading tabs than the
  stack has entries once cut back to that depth, \<open>parseLevel\<close> returns the indentation
  error with the 1-based number of that line, and no Level.
\<close>

theorem indentation_error:
  assumes "headerLoop (textLines txt) 0 initialHeader = Inr (h, body, i0)"
    and "body = before @ raw # after"
    and "bodyLoop before i0 ([], 0) = Inr (rs, stackLen)"
    and "trim raw \<noteq> []"
    and "\<not> list_ex isLineTerminator raw"
    and "min stackLen (length (takeWhile (\<lambda>c. c = 0x09) raw))
           < length (takeWhile (\<lambda>c. c = 0x09) raw)"
  shows "parseLevel txt
           = Inl (ParseError (str ''Invalid indentation (no parent block at that depth)'')
                    (i0 + length before + 1))
         \<and> textLines txt ! (i0 + length before) = raw"
proof -
  have "bodyLoop body i0 ([], 0)
        = Inl (ParseError (str ''Invalid indentation (no parent block at that depth)'')
                 (i0 + length before + 1))"
    unfolding assms(2) bodyLoop_append assms(3)
    using bodyLine_bad_indent[OF assms(4,5,6), of "i0 + length before" rs] by simp
  then have a: "parseLevel txt
           = Inl (ParseError (str ''Invalid indentation (no parent block at that depth)'')
                    (i0 + length before + 1))"
    using assms(1) by (simp add: parseLevel_def Let_def isFinite_def)
  from headerLoop_rest[OF assms(1)] obtain n where
    n: "n \<le> length (textLines txt)" "body = drop n (textLines txt)" "i0 = n" by auto
  have "textLines txt ! (n + length before) = drop n (textLines txt) ! length before"
    using n(1) by simp
  also have "\<dots> = raw" unfolding n(2)[symmetric] assms(2) by simp
  finally show ?thesis using a n(3) by simp
qed

lemma badIndent_facts:
  "headerLoop (textLines badIndentText) 0 initialHeader
     = Inr (initialHeader, [str ''Block''] @ (0x09 # 0x09 # str ''Wall'') # [], 1)
   \<and> trim (0x09 # 0x09 # str ''Wall'') \<noteq> []
   \<and> \<not> list_ex isLineTerminator (0x09 # 0x09 # str ''Wall'')
   \<and> min 1 (length (takeWhile (\<lambda>c. c = 0x09) (0x09 # 0x09 # str ''Wall'')))
        < length (takeWhile (\<lambda>c. c = 0x09) (0x09 # 0x09 # str ''Wall''))"
  by code_simp

lemma badIndent_before:
  "(case bodyLoop [str ''Block''] 1 ([], 0) of Inl e \<Rightarrow> False | Inr (rs, n) \<Rightarrow> n = 1)"
  by code_simp

theorem indentation_error_witness:
  "parseLevel badIndentText
     = Inl (ParseError (str ''Invalid indentation (no parent block at that depth)'') 3)
   \<and> textLines badIndentText ! 2 = 0x09 # 0x09 # str ''Wall''"
proof -
  from badIndent_before obtain rs where
    b: "bodyLoop [str ''Block''] 1 ([], 0) = Inr (rs, 1)"
    by (cases "bodyLoop [str ''Block''] 1 ([], 0)") auto
  from badIndent_facts have
    h: "headerLoop (textLines badIndentText) 0 initialHeader
         = Inr (initialHeader, [str ''Block''] @ (0x09 # 0x09 # str ''Wall'') # [], 1)"
    and t: "trim (0x09 # 0x09 # str ''Wall'') \<noteq> []"
    and m: "\<not> list_ex isLineTerminator (0x09 # 0x09 # str ''Wall'')"
    and d: "min 1 (length (takeWhile (\<lambda>c. c = 0x09) (0x09 # 0x09 # str ''Wall'')))
        < length (takeWhile (\<lambda>c. c = 0x09) (0x09 # 0x09 # str ''Wall''))"
    by blast+
  from indentation_error[OF h refl b t m d] show ?thesis by (simp add: eval_nat_numeral)
qed

text \<open>
  C9 as stated fails for a line that holds a line separator (U+2028). The third line of
  \<open>separatorText\<close> is not blank and has two leading tabs while one Block is open; the line
  pattern does not match it, the line is skipped, and \<open>parseLevel\<close> returns a Level.
\<close>

theorem indentation_line_skipped:
  "textLines separatorText = [str ''#'', str ''Block'', separatorLine]
   \<and> headerLoop (textLines separatorText) 0 initialHeader
       = Inr (initialHeader, [str ''Block''] @ separatorLine # [], 1)
   \<and> bodyLoop [str ''Block''] 1 ([], 0) = Inr ([plainBlock], 1)
   \<and> trim separatorLine = str ''Wall''
   \<and> length (takeWhile (\<lambda>c. c = 0x09) separatorLine) = 2
   \<and> parseLevel separatorText = Inr \<lparr> header = initialHeader, roots = [plainBlock] \<rparr>"
  by code_simp

end
